theory Spec2Isabelle
  imports Main "HOL-Library.Word"
begin

unbundle bit_operations_syntax

section \<open>Machine types of the 64-bit host\<close>

type_synonym Uptr = "64 word"
type_synonym U64 = "64 word"
type_synonym U32 = "32 word"
type_synonym I32 = "32 word"

text \<open>An \<open>Object*\<close> is the address of a runtime object; \<open>nullptr\<close> is the address 0.\<close>

type_synonym Object = "64 word"

section \<open>Sentinels and the biased slot encoding\<close>

text \<open>
  The process-wide facts the table code reads: the addresses of the two dummy functions
  made by \<open>makeDummyFunction\<close> (function-local statics, so fixed for the whole run), the
  constant \<open>IR::maxTableElems\<close>, and the platform's page size, its page-commit call (the
  address and number of pages to commit, and whether it succeeded) and its call that
  reserves pages (the number of pages, and the base address or null).
\<close>

record Env =
  outOfBoundsAddr :: Object
  uninitializedAddr :: Object
  maxTableElems :: U64
  pageSizeLog2 :: nat
  commitVirtualPages :: "Uptr \<Rightarrow> Uptr \<Rightarrow> bool"
  allocateVirtualPages :: "U64 \<Rightarrow> Uptr"

definition getOutOfBoundsElement :: "Env \<Rightarrow> Object" where
  "getOutOfBoundsElement env = outOfBoundsAddr env"

definition getUninitializedElement :: "Env \<Rightarrow> Object" where
  "getUninitializedElement env = uninitializedAddr env"

definition objectToBiasedTableElementValue :: "Env \<Rightarrow> Object \<Rightarrow> Uptr" where
  "objectToBiasedTableElementValue env object = object - getOutOfBoundsElement env"

definition biasedTableElementValueToObject :: "Env \<Rightarrow> Uptr \<Rightarrow> Object" where
  "biasedTableElementValueToObject env biasedValue = biasedValue + getOutOfBoundsElement env"

section \<open>Exceptions\<close>

text \<open>
  The exception kinds thrown by the table code, with the arguments the source passes
  besides the table or module instance itself: the faulting index for a table access, the
  segment index and source index for a segment access.
\<close>

datatype ExceptionType =
    outOfBoundsTableAccess U64
  | outOfBoundsElemSegmentAccess U64 Uptr
  | invalidArgument
  | uninitializedTableElement U64
  | indirectCallSignatureMismatch

section \<open>Resource quota\<close>

text \<open>
  Modelled from the spec: the quota object behind \<open>resourceQuota->tableElems\<close> is declared
  outside these sources. The spec says it accounts element-count allocations, that grow
  charges \<open>delta\<close> against it and fails on denial, and that a rejected grow refunds it. It
  is a counter with a limit: a charge is denied when the counter would overflow or pass
  the limit, and a refund takes the same amount off the counter.
\<close>

record ResourceQuota =
  quotaCurrent :: Uptr
  quotaMax :: Uptr

definition tableElems_allocate :: "ResourceQuota \<Rightarrow> Uptr \<Rightarrow> ResourceQuota option" where
  "tableElems_allocate q delta =
     (if quotaCurrent q + delta < quotaCurrent q then None
      else if quotaCurrent q + delta > quotaMax q then None
      else Some (q\<lparr>quotaCurrent := quotaCurrent q + delta\<rparr>))"

definition tableElems_free :: "ResourceQuota \<Rightarrow> Uptr \<Rightarrow> ResourceQuota" where
  "tableElems_free q delta = q\<lparr>quotaCurrent := quotaCurrent q - delta\<rparr>"

section \<open>Tables\<close>

text \<open>
  Modelled from the spec: the struct \<open>Table\<close> is declared outside these sources. The record
  has the fields that the code in \<open>Table.cpp\<close> reads and writes, which are the attributes
  the specification lists: the size bounds of the type, the reserved region, the current
  element count, the reserved element count and the optional quota. \<open>elements\<close> is the base
  address of the reservation and \<open>biasedValue t i\<close> is the word
  \<open>t->elements[i].biasedValue\<close>.

  The reservation is one array of words, all zero until written: that is what a page of
  it holds once it is committed. A load from a page that is not committed yet faults
  instead; \<open>getTableElement\<close> and \<open>setTableElement\<close> run inside
  \<open>unwindSignalsAsExceptions\<close>, which turns the fault into an exception in code outside
  these sources. The model does not follow which pages are committed and reads the zero
  word there.

  The quota is shared by reference in the source; here each table carries the state of its
  quota. Execution is sequential: locks and memory orders have no counterpart.
\<close>

record Table =
  typeSizeMin :: U64
  typeSizeMax :: U64
  elements :: Uptr
  biasedValue :: "Uptr \<Rightarrow> Uptr"
  numElements :: Uptr
  numReservedBytes :: Uptr
  numReservedElements :: Uptr
  resourceQuota :: "ResourceQuota option"

text \<open>
  Modelled from the spec: \<open>Table::Element\<close> is declared outside these sources. The
  specification gives each slot one word, so \<open>sizeof(Table::Element)\<close> is the 8 bytes of a
  \<open>Uptr\<close> on the 64-bit host.
\<close>

definition sizeofTableElement :: Uptr where
  "sizeofTableElement = 8"

definition numGuardPages :: U64 where
  "numGuardPages = 1"

definition getNumPlatformPages :: "Env \<Rightarrow> Uptr \<Rightarrow> Uptr" where
  "getNumPlatformPages env numBytes =
     drop_bit (pageSizeLog2 env) (numBytes + push_bit (pageSizeLog2 env) 1 - 1)"

text \<open>
  Modelled from the spec: \<open>branchlessMin\<close> is defined outside these sources. The
  specification says every access computes \<open>min(i, reserved_count - 1)\<close>.
\<close>

definition branchlessMin :: "Uptr \<Rightarrow> Uptr \<Rightarrow> Uptr" where
  "branchlessMin a b = (if a < b then a else b)"

subsection \<open>Reading and writing one slot\<close>

text \<open>
  \<open>setTableElementNonNull\<close> loads the slot, throws if it decodes to the out-of-bounds
  sentinel, and otherwise exchanges it. In a sequential run the exchange compares against
  the value just loaded; a spurious failure of the weak exchange repeats the iteration
  with the same value, so the model takes the one iteration in which it succeeds. The
  result is the old object and the table with the one slot replaced. Both throws come
  before the write, so an exception leaves the table as it was. The assertions of the
  source are debug checks and have no counterpart.
\<close>

definition setTableElementNonNull ::
  "Env \<Rightarrow> Table \<Rightarrow> Uptr \<Rightarrow> Object \<Rightarrow> ExceptionType + (Object \<times> Table)" where
  "setTableElementNonNull env table index object =
     (if index \<ge> numReservedElements table then Inl (outOfBoundsTableAccess index)
      else
        let saturatedIndex = branchlessMin index (numReservedElements table - 1);
            newBiasedValue = objectToBiasedTableElementValue env object;
            oldBiasedValue = biasedValue table saturatedIndex
        in if biasedTableElementValueToObject env oldBiasedValue = getOutOfBoundsElement env
           then Inl (outOfBoundsTableAccess index)
           else Inr (biasedTableElementValueToObject env oldBiasedValue,
                     table\<lparr>biasedValue := (biasedValue table)(saturatedIndex := newBiasedValue)\<rparr>))"

definition getTableElementNonNull :: "Env \<Rightarrow> Table \<Rightarrow> Uptr \<Rightarrow> ExceptionType + Object" where
  "getTableElementNonNull env table index =
     (if index \<ge> numReservedElements table then Inl (outOfBoundsTableAccess index)
      else
        let saturatedIndex = branchlessMin index (numReservedElements table - 1);
            object = biasedTableElementValueToObject env (biasedValue table saturatedIndex)
        in if object = getOutOfBoundsElement env then Inl (outOfBoundsTableAccess index)
           else Inr object)"

definition setTableElement ::
  "Env \<Rightarrow> Table \<Rightarrow> Uptr \<Rightarrow> Object \<Rightarrow> ExceptionType + (Object \<times> Table)" where
  "setTableElement env table index newValue =
     (let newValue' = (if newValue = 0 then getUninitializedElement env else newValue)
      in case setTableElementNonNull env table index newValue' of
           Inl e \<Rightarrow> Inl e
         | Inr (oldObject, table') \<Rightarrow>
             Inr (if oldObject = getUninitializedElement env then 0 else oldObject, table'))"

definition getTableElement :: "Env \<Rightarrow> Table \<Rightarrow> Uptr \<Rightarrow> ExceptionType + Object" where
  "getTableElement env table index =
     (case getTableElementNonNull env table index of
        Inl e \<Rightarrow> Inl e
      | Inr object \<Rightarrow> Inr (if object = getUninitializedElement env then 0 else object))"

definition getTableNumElements :: "Table \<Rightarrow> Uptr" where
  "getTableNumElements table = numElements table"

subsection \<open>Growing\<close>

text \<open>The loop of \<open>growTableImpl\<close> that stores the fill word into the new slots, in ascending order.\<close>

function initializeNewElements :: "Table \<Rightarrow> Uptr \<Rightarrow> Uptr \<Rightarrow> Uptr \<Rightarrow> Table" where
  "initializeNewElements table elementIndex newNumElements biasedTableInitElement =
     (if elementIndex < newNumElements
      then initializeNewElements
             (table\<lparr>biasedValue := (biasedValue table)(elementIndex := biasedTableInitElement)\<rparr>)
             (elementIndex + 1) newNumElements biasedTableInitElement
      else table)"
  by pat_completeness auto
termination
proof (relation "measure (\<lambda>(table, elementIndex, newNumElements, v). unat newNumElements - unat elementIndex)")
  show "wf (measure (\<lambda>(table, elementIndex, newNumElements, v). unat newNumElements - unat elementIndex))"
    by simp
next
  fix table :: Table and elementIndex newNumElements biasedTableInitElement :: Uptr
  assume lt: "elementIndex < newNumElements"
  then have "unat (elementIndex + 1) = unat elementIndex + 1"
    by (metis (no_types, lifting) add.commute add_0 inc_i inc_le
        unat_plus_simple unsigned_0 unsigned_1 word_gt_0)
  moreover from lt have "unat elementIndex < unat newNumElements"
    by (simp add: word_less_nat_alt)
  ultimately show
    "((table\<lparr>biasedValue := (biasedValue table)(elementIndex := biasedTableInitElement)\<rparr>,
       elementIndex + 1, newNumElements, biasedTableInitElement),
      (table, elementIndex, newNumElements, biasedTableInitElement))
     \<in> measure (\<lambda>(table, elementIndex, newNumElements, v). unat newNumElements - unat elementIndex)"
    by simp
qed

text \<open>
  \<open>growTableImpl\<close> returns the old element count on success and nothing on failure, together
  with the table as the call leaves it. The source's \<open>outOldNumElements\<close> may be null, in
  which case the caller drops the first component.
\<close>

definition growTableImpl ::
  "Env \<Rightarrow> Table \<Rightarrow> Uptr \<Rightarrow> bool \<Rightarrow> Object \<Rightarrow> Uptr option \<times> Table" where
  "growTableImpl env table numElementsToGrow initializeNew initializeToElement =
     (if numElementsToGrow = 0 then (Some (numElements table), table)
      else
        case (case resourceQuota table of
                None \<Rightarrow> Some None
              | Some q \<Rightarrow> map_option Some (tableElems_allocate q numElementsToGrow)) of
          None \<Rightarrow> (None, table)
        | Some charged \<Rightarrow>
            let table1 = table\<lparr>resourceQuota := charged\<rparr>;
                refunded = table1\<lparr>resourceQuota :=
                             map_option (\<lambda>q. tableElems_free q numElementsToGrow) charged\<rparr>;
                oldNumElements = numElements table1
            in if numElementsToGrow > typeSizeMax table1
                  \<or> oldNumElements > typeSizeMax table1 - numElementsToGrow
                  \<or> numElementsToGrow > maxTableElems env
                  \<or> oldNumElements > maxTableElems env - numElementsToGrow
               then (None, refunded)
               else
                 let newNumElements = oldNumElements + numElementsToGrow;
                     previousNumPlatformPages =
                       getNumPlatformPages env (oldNumElements * sizeofTableElement);
                     newNumPlatformPages =
                       getNumPlatformPages env (newNumElements * sizeofTableElement)
                 in if newNumPlatformPages \<noteq> previousNumPlatformPages
                       \<and> \<not> commitVirtualPages env
                             (elements table1 + push_bit (pageSizeLog2 env) previousNumPlatformPages)
                             (newNumPlatformPages - previousNumPlatformPages)
                    then (None, refunded)
                    else
                      let table2 =
                            (if initializeNew
                             then initializeNewElements table1 oldNumElements newNumElements
                                    (objectToBiasedTableElementValue env initializeToElement)
                             else table1)
                      in (Some oldNumElements, table2\<lparr>numElements := newNumElements\<rparr>))"

definition growTable :: "Env \<Rightarrow> Table \<Rightarrow> Uptr \<Rightarrow> Object \<Rightarrow> Uptr option \<times> Table" where
  "growTable env table numElementsToGrow initialElement =
     growTableImpl env table numElementsToGrow True initialElement"

subsection \<open>Table objects, the global list of tables and address resolution\<close>

text \<open>
  A \<open>Table*\<close> is an address; the heap gives the object behind it. The global \<open>tables\<close>
  vector lists the pointers of the live tables in the order of their creation.
\<close>

type_synonym TablePtr = Uptr
type_synonym Heap = "TablePtr \<Rightarrow> Table"

text \<open>
  \<open>tableMaxElements\<close> is \<open>Uptr(1) << 32\<close> widened to \<open>U64\<close>; the type argument is the
  width of \<open>Uptr\<close> on the host. Shifting a 32-bit \<open>Uptr\<close> by 32 is undefined in C++; the
  model takes the value a shift that drops the bits shifted out would give.
\<close>

definition tableMaxElements :: "'a::len itself \<Rightarrow> U64" where
  "tableMaxElements host = ucast (push_bit 32 (1 :: 'a word))"

text \<open>
  \<open>createTableImpl\<close> on the 64-bit host. \<open>newTable\<close> is the pointer returned by
  \<open>new Table\<close>, whose constructor starts the element count at zero. The result is the
  pointer (or nothing, when the reservation fails), the heap and the global list.
\<close>

definition createTableImpl ::
  "Env \<Rightarrow> Heap \<Rightarrow> TablePtr list \<Rightarrow> TablePtr \<Rightarrow> U64 \<Rightarrow> U64 \<Rightarrow> ResourceQuota option
   \<Rightarrow> TablePtr option \<times> Heap \<times> TablePtr list" where
  "createTableImpl env heap tables newTable sizeMin sizeMax quota =
     (let pageBytesLog2 = pageSizeLog2 env;
          tableMaxElems = tableMaxElements TYPE(64);
          tableMaxBytes = sizeofTableElement * tableMaxElems;
          tableMaxPages = drop_bit pageBytesLog2 tableMaxBytes;
          table = \<lparr> typeSizeMin = sizeMin, typeSizeMax = sizeMax,
                    elements = allocateVirtualPages env (tableMaxPages + numGuardPages),
                    biasedValue = (\<lambda>_. 0),
                    numElements = 0,
                    numReservedBytes = tableMaxBytes,
                    numReservedElements = tableMaxElems,
                    resourceQuota = quota \<rparr>
      in if elements table = 0 then (None, heap, tables)
         else (Some newTable, heap(newTable := table), tables @ [newTable]))"

text \<open>The part of \<open>Table::~Table\<close> that erases the first occurrence of the pointer from the global list.\<close>

fun eraseTable :: "TablePtr list \<Rightarrow> TablePtr \<Rightarrow> TablePtr list" where
  "eraseTable [] this = []"
| "eraseTable (t # ts) this = (if t = this then ts else t # eraseTable ts this)"

text \<open>
  \<open>createTable\<close>. \<open>newId\<close> is what \<open>compartment->tables.add\<close> returns: the id of the table in
  its compartment, or \<open>UINTPTR_MAX\<close> when the compartment has none left. The check that the
  initial element has the table's element type ends the process when it fails and has no
  counterpart here.
\<close>

text \<open>
  \<open>delete table\<close> runs \<open>Table::~Table\<close>: the pointer leaves the global list, the pages are
  given back and the quota is refunded by the element count of the table. Every \<open>delete\<close>
  in these functions is of a table that has no id yet, so there is no compartment to
  leave. The object is gone afterwards; its heap entry keeps the state of the shared quota
  after the refund.
\<close>

definition deleteTable :: "Heap \<Rightarrow> TablePtr list \<Rightarrow> TablePtr \<Rightarrow> Heap \<times> TablePtr list" where
  "deleteTable heap tables this =
     (heap(this := (heap this)\<lparr>resourceQuota :=
             map_option (\<lambda>q. tableElems_free q (numElements (heap this)))
               (resourceQuota (heap this))\<rparr>),
      eraseTable tables this)"

definition createTable ::
  "Env \<Rightarrow> Heap \<Rightarrow> TablePtr list \<Rightarrow> TablePtr \<Rightarrow> U64 \<Rightarrow> U64 \<Rightarrow> Object \<Rightarrow> ResourceQuota option
   \<Rightarrow> Uptr \<Rightarrow> TablePtr option \<times> Heap \<times> TablePtr list" where
  "createTable env heap tables newTable sizeMin sizeMax element quota newId =
     (case createTableImpl env heap tables newTable sizeMin sizeMax quota of
        (None, heap', tables') \<Rightarrow> (None, heap', tables')
      | (Some table, heap', tables') \<Rightarrow>
          let element' = (if element = 0 then getUninitializedElement env else element)
          in case growTableImpl env (heap' table) sizeMin True element' of
               (None, grown) \<Rightarrow>
                 (case deleteTable (heap'(table := grown)) tables' table of
                    (heap'', tables'') \<Rightarrow> (None, heap'', tables''))
             | (Some old, grown) \<Rightarrow>
                 if newId = - 1
                 then (case deleteTable (heap'(table := grown)) tables' table of
                         (heap'', tables'') \<Rightarrow> (None, heap'', tables''))
                 else (Some table, heap'(table := grown), tables'))"

text \<open>
  \<open>cloneTable\<close>: the loop that copies the slots of the original into the new table, and the
  function. The new table shares the quota object of the original, so the charge of its
  growth shows in both tables.
\<close>

function cloneElements :: "Table \<Rightarrow> Table \<Rightarrow> Uptr \<Rightarrow> Uptr \<Rightarrow> Table" where
  "cloneElements table newTable elementIndex numElems =
     (if elementIndex < numElems
      then cloneElements table
             (newTable\<lparr>biasedValue :=
                (biasedValue newTable)(elementIndex := biasedValue table elementIndex)\<rparr>)
             (elementIndex + 1) numElems
      else newTable)"
  by pat_completeness auto
termination
proof (relation "measure (\<lambda>(table, newTable, elementIndex, numElems). unat numElems - unat elementIndex)")
  show "wf (measure (\<lambda>(table :: Table, newTable :: Table, elementIndex :: Uptr, numElems :: Uptr).
                       unat numElems - unat elementIndex))"
    by simp
next
  fix table newTable :: Table and elementIndex numElems :: Uptr
  assume lt: "elementIndex < numElems"
  then have "unat (elementIndex + 1) = unat elementIndex + 1"
    by (metis (no_types, lifting) add.commute add_0 inc_i inc_le
        unat_plus_simple unsigned_0 unsigned_1 word_gt_0)
  moreover from lt have "unat elementIndex < unat numElems"
    by (simp add: word_less_nat_alt)
  ultimately show
    "((table, newTable\<lparr>biasedValue :=
                (biasedValue newTable)(elementIndex := biasedValue table elementIndex)\<rparr>,
       elementIndex + 1, numElems),
      (table, newTable, elementIndex, numElems))
     \<in> measure (\<lambda>(table, newTable, elementIndex, numElems). unat numElems - unat elementIndex)"
    by simp
qed

definition cloneTable ::
  "Env \<Rightarrow> Heap \<Rightarrow> TablePtr list \<Rightarrow> TablePtr \<Rightarrow> TablePtr
   \<Rightarrow> TablePtr option \<times> Heap \<times> TablePtr list" where
  "cloneTable env heap tables table newTablePtr =
     (let numElems = numElements (heap table)
      in case createTableImpl env heap tables newTablePtr (typeSizeMin (heap table))
                (typeSizeMax (heap table)) (resourceQuota (heap table)) of
           (None, heap', tables') \<Rightarrow> (None, heap', tables')
         | (Some newTable, heap', tables') \<Rightarrow>
             (case growTableImpl env (heap' newTable) numElems False
                     (getUninitializedElement env) of
                (None, grown) \<Rightarrow>
                  (case deleteTable (heap'(newTable := grown)) tables' newTable of
                     (heap'', tables'') \<Rightarrow> (None, heap'', tables''))
              | (Some old, grown) \<Rightarrow>
                  let shared = heap'(table := (heap' table)\<lparr>resourceQuota := resourceQuota grown\<rparr>)
                  in (Some newTable,
                      shared(newTable := cloneElements (shared table) grown 0 numElems),
                      tables')))"

fun isAddressOwnedByTable :: "Heap \<Rightarrow> TablePtr list \<Rightarrow> Uptr \<Rightarrow> (TablePtr \<times> Uptr) option" where
  "isAddressOwnedByTable heap [] address = None"
| "isAddressOwnedByTable heap (table # tables) address =
     (let startAddress = elements (heap table);
          endAddress = elements (heap table) + numReservedBytes (heap table)
      in if address \<ge> startAddress \<and> address < endAddress
         then Some (table, (address - startAddress) div sizeofTableElement)
         else isAddressOwnedByTable heap tables address)"

subsection \<open>Element segments\<close>

text \<open>
  Modelled from the spec: \<open>IR::Elem\<close> and \<open>ModuleInstance\<close> are declared outside these
  sources. The specification makes an element segment a sequence of entries, each
  \<open>ref_null\<close> or a function index, and has the module instance expose \<open>functions[i]\<close> and
  the element segments, each present or dropped. Indices into both come from a validated
  module, so both are total maps here.
\<close>

datatype Elem = ref_null | ref_func Uptr

record ModuleInstance =
  functionsVec :: "Uptr \<Rightarrow> Object"
  elemSegments :: "Uptr \<Rightarrow> Elem list option"

text \<open>
  The loop of \<open>initElemSegment\<close> from \<open>index\<close> on. The result is the exception that ended
  the loop, if any, and the table as the loop leaves it.
\<close>

function initElemSegmentFrom ::
  "Env \<Rightarrow> ModuleInstance \<Rightarrow> Uptr \<Rightarrow> Elem list \<Rightarrow> Table \<Rightarrow> Uptr \<Rightarrow> Uptr \<Rightarrow> Uptr \<Rightarrow> Uptr
   \<Rightarrow> ExceptionType option \<times> Table" where
  "initElemSegmentFrom env moduleInstance elemSegmentIndex elemVector table
       destOffset sourceOffset numElems index =
     (if index < numElems
      then
        let sourceIndex = sourceOffset + index;
            destIndex = destOffset + index
        in if unat sourceIndex \<ge> length elemVector \<or> sourceIndex < sourceOffset
           then (Some (outOfBoundsElemSegmentAccess elemSegmentIndex sourceIndex), table)
           else
             let elemObject = (case elemVector ! unat sourceIndex of
                                 ref_null \<Rightarrow> 0
                               | ref_func i \<Rightarrow> functionsVec moduleInstance i)
             in case setTableElement env table destIndex elemObject of
                  Inl e \<Rightarrow> (Some e, table)
                | Inr (old, table') \<Rightarrow>
                    initElemSegmentFrom env moduleInstance elemSegmentIndex elemVector table'
                      destOffset sourceOffset numElems (index + 1)
      else (None, table))"
  by pat_completeness auto
termination
proof (relation "measure (\<lambda>(env, mi, seg, ev, table, d, s, numElems, index). unat numElems - unat index)")
  show "wf (measure (\<lambda>(env, mi, seg, ev, table, d, s, numElems, index :: Uptr).
                       unat (numElems :: Uptr) - unat index))"
    by simp
next
  fix numElems index :: Uptr
    and env :: Env and mi :: ModuleInstance and seg :: Uptr and ev :: "Elem list"
    and table table' :: Table and d s :: Uptr
  assume lt: "index < numElems"
  then have "unat (index + 1) = unat index + 1"
    by (metis (no_types, lifting) add.commute add_0 inc_i inc_le
        unat_plus_simple unsigned_0 unsigned_1 word_gt_0)
  moreover from lt have "unat index < unat numElems"
    by (simp add: word_less_nat_alt)
  ultimately show
    "((env, mi, seg, ev, table', d, s, numElems, index + 1),
      (env, mi, seg, ev, table, d, s, numElems, index))
     \<in> measure (\<lambda>(env, mi, seg, ev, table, d, s, numElems, index). unat numElems - unat index)"
    by simp
qed

definition initElemSegment ::
  "Env \<Rightarrow> ModuleInstance \<Rightarrow> Uptr \<Rightarrow> Elem list \<Rightarrow> Table \<Rightarrow> Uptr \<Rightarrow> Uptr \<Rightarrow> Uptr
   \<Rightarrow> ExceptionType option \<times> Table" where
  "initElemSegment env moduleInstance elemSegmentIndex elemVector table
       destOffset sourceOffset numElems =
     initElemSegmentFrom env moduleInstance elemSegmentIndex elemVector table
       destOffset sourceOffset numElems 0"

subsection \<open>Intrinsics\<close>

text \<open>
  Modelled from the spec: \<open>getTableFromRuntimeData\<close> is declared outside these sources. The
  spec says the numeric table ids of the intrinsics are resolved against the calling
  context's runtime data; the context is the map from table id to table pointer.
\<close>

type_synonym ContextRuntimeData = "Uptr \<Rightarrow> TablePtr"

definition getTableFromRuntimeData :: "ContextRuntimeData \<Rightarrow> Uptr \<Rightarrow> TablePtr" where
  "getTableFromRuntimeData contextRuntimeData tableId = contextRuntimeData tableId"

definition table_grow ::
  "Env \<Rightarrow> Heap \<Rightarrow> ContextRuntimeData \<Rightarrow> Object \<Rightarrow> U32 \<Rightarrow> Uptr \<Rightarrow> I32 \<times> Heap" where
  "table_grow env heap contextRuntimeData initialValue deltaNumElements tableId =
     (let table = getTableFromRuntimeData contextRuntimeData tableId
      in case growTable env (heap table) (ucast deltaNumElements)
                (if initialValue \<noteq> 0 then initialValue else getUninitializedElement env) of
           (None, table') \<Rightarrow> (- 1, heap(table := table'))
         | (Some oldNumElements, table') \<Rightarrow> (ucast oldNumElements, heap(table := table')))"

text \<open>
  \<open>table.init\<close>: the module instance is the one the context resolves
  \<open>moduleInstanceId\<close> to; a dropped segment is an invalid argument.
\<close>

definition table_init ::
  "Env \<Rightarrow> Heap \<Rightarrow> ContextRuntimeData \<Rightarrow> ModuleInstance \<Rightarrow> U32 \<Rightarrow> U32 \<Rightarrow> U32 \<Rightarrow> Uptr \<Rightarrow> Uptr
   \<Rightarrow> ExceptionType option \<times> Heap" where
  "table_init env heap contextRuntimeData moduleInstance destIndex sourceIndex numElems
       tableId elemSegmentIndex =
     (let table = getTableFromRuntimeData contextRuntimeData tableId
      in case elemSegments moduleInstance elemSegmentIndex of
           None \<Rightarrow> (Some invalidArgument, heap)
         | Some elemVector \<Rightarrow>
             (case initElemSegment env moduleInstance elemSegmentIndex elemVector (heap table)
                     (ucast destIndex) (ucast sourceIndex) (ucast numElems) of
                (r, table') \<Rightarrow> (r, heap(table := table'))))"

text \<open>
  The two loops of \<open>table.copy\<close> from \<open>index\<close> on. Source and destination are table
  pointers and may be the same table; each step reads through the source pointer and
  writes through the destination pointer.
\<close>

function copyDescending ::
  "Env \<Rightarrow> Heap \<Rightarrow> TablePtr \<Rightarrow> TablePtr \<Rightarrow> U32 \<Rightarrow> U32 \<Rightarrow> U32 \<Rightarrow> Uptr
   \<Rightarrow> ExceptionType option \<times> Heap" where
  "copyDescending env heap sourceTable destTable destOffset sourceOffset numElems index =
     (if index < ucast numElems
      then
        case getTableElementNonNull env (heap sourceTable)
               (ucast sourceOffset + (ucast numElems - index - 1)) of
          Inl e \<Rightarrow> (Some e, heap)
        | Inr object \<Rightarrow>
            (case setTableElementNonNull env (heap destTable)
                    (ucast destOffset + (ucast numElems - index - 1)) object of
               Inl e \<Rightarrow> (Some e, heap)
             | Inr (old, table') \<Rightarrow>
                 copyDescending env (heap(destTable := table')) sourceTable destTable
                   destOffset sourceOffset numElems (index + 1))
      else (None, heap))"
  by pat_completeness auto
termination
proof (relation "measure (\<lambda>(env, heap, st, dt, d, s, numElems, index). unat (ucast numElems :: Uptr) - unat index)")
  show "wf (measure (\<lambda>(env, heap, st, dt, d, s, numElems :: U32, index :: Uptr).
                       unat (ucast numElems :: Uptr) - unat index))"
    by simp
next
  fix numElems d s :: U32 and index st dt :: Uptr and env :: Env and heap heap' :: Heap
  assume lt: "index < ucast numElems"
  then have "unat (index + 1) = unat index + 1"
    by (metis (no_types, lifting) add.commute add_0 inc_i inc_le
        unat_plus_simple unsigned_0 unsigned_1 word_gt_0)
  moreover from lt have "unat index < unat (ucast numElems :: Uptr)"
    by (simp add: word_less_nat_alt)
  ultimately show
    "((env, heap', st, dt, d, s, numElems, index + 1), (env, heap, st, dt, d, s, numElems, index))
     \<in> measure (\<lambda>(env, heap, st, dt, d, s, numElems, index).
                   unat (ucast numElems :: Uptr) - unat index)"
    by simp
qed

function copyAscending ::
  "Env \<Rightarrow> Heap \<Rightarrow> TablePtr \<Rightarrow> TablePtr \<Rightarrow> U32 \<Rightarrow> U32 \<Rightarrow> U32 \<Rightarrow> Uptr
   \<Rightarrow> ExceptionType option \<times> Heap" where
  "copyAscending env heap sourceTable destTable destOffset sourceOffset numElems index =
     (if index < ucast numElems
      then
        case getTableElementNonNull env (heap sourceTable) (ucast sourceOffset + index) of
          Inl e \<Rightarrow> (Some e, heap)
        | Inr object \<Rightarrow>
            (case setTableElementNonNull env (heap destTable) (ucast destOffset + index) object of
               Inl e \<Rightarrow> (Some e, heap)
             | Inr (old, table') \<Rightarrow>
                 copyAscending env (heap(destTable := table')) sourceTable destTable
                   destOffset sourceOffset numElems (index + 1))
      else (None, heap))"
  by pat_completeness auto
termination
proof (relation "measure (\<lambda>(env, heap, st, dt, d, s, numElems, index). unat (ucast numElems :: Uptr) - unat index)")
  show "wf (measure (\<lambda>(env, heap, st, dt, d, s, numElems :: U32, index :: Uptr).
                       unat (ucast numElems :: Uptr) - unat index))"
    by simp
next
  fix numElems d s :: U32 and index st dt :: Uptr and env :: Env and heap heap' :: Heap
  assume lt: "index < ucast numElems"
  then have "unat (index + 1) = unat index + 1"
    by (metis (no_types, lifting) add.commute add_0 inc_i inc_le
        unat_plus_simple unsigned_0 unsigned_1 word_gt_0)
  moreover from lt have "unat index < unat (ucast numElems :: Uptr)"
    by (simp add: word_less_nat_alt)
  ultimately show
    "((env, heap', st, dt, d, s, numElems, index + 1), (env, heap, st, dt, d, s, numElems, index))
     \<in> measure (\<lambda>(env, heap, st, dt, d, s, numElems, index).
                   unat (ucast numElems :: Uptr) - unat index)"
    by simp
qed

definition table_copy ::
  "Env \<Rightarrow> Heap \<Rightarrow> ContextRuntimeData \<Rightarrow> U32 \<Rightarrow> U32 \<Rightarrow> U32 \<Rightarrow> Uptr \<Rightarrow> Uptr
   \<Rightarrow> ExceptionType option \<times> Heap" where
  "table_copy env heap contextRuntimeData destOffset sourceOffset numElems
       sourceTableId destTableId =
     (let sourceTable = getTableFromRuntimeData contextRuntimeData sourceTableId;
          destTable = getTableFromRuntimeData contextRuntimeData destTableId
      in if sourceOffset < destOffset
         then copyDescending env heap sourceTable destTable destOffset sourceOffset numElems 0
         else copyAscending env heap sourceTable destTable destOffset sourceOffset numElems 0)"

text \<open>The loop of \<open>table.fill\<close> from \<open>index\<close> on.\<close>

function fillFrom ::
  "Env \<Rightarrow> Table \<Rightarrow> U32 \<Rightarrow> Object \<Rightarrow> U32 \<Rightarrow> Uptr \<Rightarrow> ExceptionType option \<times> Table" where
  "fillFrom env destTable destOffset val numElems index =
     (if index < ucast numElems
      then
        case setTableElementNonNull env destTable (ucast destOffset + index) val of
          Inl e \<Rightarrow> (Some e, destTable)
        | Inr (old, table') \<Rightarrow> fillFrom env table' destOffset val numElems (index + 1)
      else (None, destTable))"
  by pat_completeness auto
termination
proof (relation "measure (\<lambda>(env, t, d, v, numElems, index). unat (ucast numElems :: Uptr) - unat index)")
  show "wf (measure (\<lambda>(env, t, d, v, numElems :: U32, index :: Uptr).
                       unat (ucast numElems :: Uptr) - unat index))"
    by simp
next
  fix numElems d :: U32 and index v :: Uptr and env :: Env and t t' :: Table
  assume lt: "index < ucast numElems"
  then have "unat (index + 1) = unat index + 1"
    by (metis (no_types, lifting) add.commute add_0 inc_i inc_le
        unat_plus_simple unsigned_0 unsigned_1 word_gt_0)
  moreover from lt have "unat index < unat (ucast numElems :: Uptr)"
    by (simp add: word_less_nat_alt)
  ultimately show
    "((env, t', d, v, numElems, index + 1), (env, t, d, v, numElems, index))
     \<in> measure (\<lambda>(env, t, d, v, numElems, index). unat (ucast numElems :: Uptr) - unat index)"
    by simp
qed

definition table_fill ::
  "Env \<Rightarrow> Heap \<Rightarrow> ContextRuntimeData \<Rightarrow> U32 \<Rightarrow> Object \<Rightarrow> U32 \<Rightarrow> Uptr
   \<Rightarrow> ExceptionType option \<times> Heap" where
  "table_fill env heap contextRuntimeData destOffset val numElems destTableId =
     (let destTable = getTableFromRuntimeData contextRuntimeData destTableId;
          val' = (if val = 0 then getUninitializedElement env else val)
      in case fillFrom env (heap destTable) destOffset val' numElems 0 of
           (r, table') \<Rightarrow> (r, heap(destTable := table')))"

section \<open>Invariants\<close>

text \<open>
  The two sentinels are distinct objects, neither of them null: each is made by its own
  \<open>new Function\<close>.
\<close>

definition sentinelsDistinct :: "Env \<Rightarrow> bool" where
  "sentinelsDistinct env =
     (outOfBoundsAddr env \<noteq> 0 \<and> uninitializedAddr env \<noteq> 0
      \<and> outOfBoundsAddr env \<noteq> uninitializedAddr env)"

text \<open>I2: every slot from the current element count up to the reserved count holds the zero word.\<close>

definition invariantI2 :: "Table \<Rightarrow> bool" where
  "invariantI2 table =
     (\<forall>i. numElements table \<le> i \<and> i < numReservedElements table \<longrightarrow> biasedValue table i = 0)"

section \<open>The failure causes of grow\<close>

text \<open>
  The causes for which a grow is rejected, as the specification lists them: the quota denies
  the charge, the delta or the new count exceeds the type's maximum or the implementation
  maximum, or the pages for the new elements cannot be committed. \<open>chargedQuota\<close> is the
  quota after an accepted charge.
\<close>

definition quotaDenied :: "Table \<Rightarrow> Uptr \<Rightarrow> bool" where
  "quotaDenied t d =
     (case resourceQuota t of None \<Rightarrow> False | Some q \<Rightarrow> tableElems_allocate q d = None)"

definition commitFails :: "Env \<Rightarrow> Table \<Rightarrow> Uptr \<Rightarrow> bool" where
  "commitFails env t d =
     (let previousPages = getNumPlatformPages env (numElements t * sizeofTableElement);
          newPages = getNumPlatformPages env ((numElements t + d) * sizeofTableElement)
      in newPages \<noteq> previousPages
         \<and> \<not> commitVirtualPages env
               (elements t + push_bit (pageSizeLog2 env) previousPages)
               (newPages - previousPages))"

definition spec_growRejected :: "Env \<Rightarrow> Table \<Rightarrow> Uptr \<Rightarrow> bool" where
  "spec_growRejected env t d =
     (d \<noteq> 0
      \<and> (quotaDenied t d
         \<or> unat d > unat (typeSizeMax t)
         \<or> unat (numElements t) + unat d > unat (typeSizeMax t)
         \<or> unat d > unat (maxTableElems env)
         \<or> unat (numElements t) + unat d > unat (maxTableElems env)
         \<or> commitFails env t d))"

definition chargedQuota :: "Table \<Rightarrow> Uptr \<Rightarrow> ResourceQuota option" where
  "chargedQuota t d = map_option (\<lambda>q. q\<lparr>quotaCurrent := quotaCurrent q + d\<rparr>) (resourceQuota t)"

text \<open>
  The condition under which \<open>initElemSegment\<close> rejects the source index of step \<open>i\<close>: it is
  at or beyond the length of the segment, or the addition wrapped around.
\<close>

definition sourceOutOfRange :: "Elem list \<Rightarrow> Uptr \<Rightarrow> Uptr \<Rightarrow> bool" where
  "sourceOutOfRange elemVector sourceOffset i =
     (unat (sourceOffset + i) \<ge> length elemVector \<or> sourceOffset + i < sourceOffset)"

text \<open>
  A destination slot can be written when \<open>setTableElementNonNull\<close> passes both of its checks:
  the index is below the reserved count and the slot does not hold the zero word, the word
  that decodes to the out-of-bounds sentinel. \<open>segmentEntryWord\<close> is the word that the step
  for a source index stores: the biased encoding of the function the entry names, or of
  the uninitialized sentinel for a null entry.
\<close>

definition slotWritable :: "Table \<Rightarrow> Uptr \<Rightarrow> bool" where
  "slotWritable t j = (j < numReservedElements t \<and> biasedValue t j \<noteq> 0)"

definition segmentEntryWord :: "Env \<Rightarrow> ModuleInstance \<Rightarrow> Elem list \<Rightarrow> Uptr \<Rightarrow> Uptr" where
  "segmentEntryWord env moduleInstance elemVector sourceIndex =
     (let elemObject = (case elemVector ! unat sourceIndex of
                          ref_null \<Rightarrow> 0
                        | ref_func i \<Rightarrow> functionsVec moduleInstance i)
      in objectToBiasedTableElementValue env
           (if elemObject = 0 then getUninitializedElement env else elemObject))"

section \<open>The element steps of copy, as the specification words them\<close>

text \<open>
  The specification describes copy as a sequence of element steps, each a checked get
  from the source followed by a checked set on the destination, taken over the offsets
  \<open>0 .. n - 1\<close> in ascending or in descending order. \<open>spec_copySteps\<close> runs the steps for a list of
  offsets in the order of the list and stops at the first exception.
\<close>

fun spec_copySteps ::
  "Env \<Rightarrow> Heap \<Rightarrow> TablePtr \<Rightarrow> TablePtr \<Rightarrow> Uptr \<Rightarrow> Uptr \<Rightarrow> Uptr list
   \<Rightarrow> ExceptionType option \<times> Heap" where
  "spec_copySteps env heap sourceTable destTable destOffset sourceOffset [] = (None, heap)"
| "spec_copySteps env heap sourceTable destTable destOffset sourceOffset (k # ks) =
     (case getTableElementNonNull env (heap sourceTable) (sourceOffset + k) of
        Inl e \<Rightarrow> (Some e, heap)
      | Inr object \<Rightarrow>
          (case setTableElementNonNull env (heap destTable) (destOffset + k) object of
             Inl e \<Rightarrow> (Some e, heap)
           | Inr (old, table') \<Rightarrow>
               spec_copySteps env (heap(destTable := table')) sourceTable destTable
                 destOffset sourceOffset ks))"

section \<open>Reserved ranges\<close>

text \<open>
  \<open>ownsAddress\<close> is the range test of \<open>isAddressOwnedByTable\<close> for one table. I5: the ranges of
  two different tables of the global list have no address in common.
\<close>

definition ownsAddress :: "Table \<Rightarrow> Uptr \<Rightarrow> bool" where
  "ownsAddress t address =
     (address \<ge> elements t \<and> address < elements t + numReservedBytes t)"

definition reservationsDisjoint :: "Heap \<Rightarrow> TablePtr list \<Rightarrow> bool" where
  "reservationsDisjoint heap tables =
     (\<forall>p \<in> set tables. \<forall>q \<in> set tables. p \<noteq> q \<longrightarrow>
        (\<forall>a. \<not> (ownsAddress (heap p) a \<and> ownsAddress (heap q) a)))"

text \<open>
  The pages that \<open>createTableImpl\<close> reserves for a table are the element range followed by
  the guard pages. \<open>allocationsDisjoint\<close> is I5 for these allocations: each lies inside the
  address space and no two of different tables have an address in common.
\<close>

definition guardBytes :: "Env \<Rightarrow> nat" where
  "guardBytes env = unat numGuardPages * 2 ^ pageSizeLog2 env"

definition inAllocation :: "Env \<Rightarrow> Table \<Rightarrow> Uptr \<Rightarrow> bool" where
  "inAllocation env t address =
     (unat (elements t) \<le> unat address
      \<and> unat address < unat (elements t) + unat (numReservedBytes t) + guardBytes env)"

definition onGuardPage :: "Env \<Rightarrow> Table \<Rightarrow> Uptr \<Rightarrow> bool" where
  "onGuardPage env t address =
     (unat (elements t) + unat (numReservedBytes t) \<le> unat address
      \<and> unat address < unat (elements t) + unat (numReservedBytes t) + guardBytes env)"

definition allocationsDisjoint :: "Env \<Rightarrow> Heap \<Rightarrow> TablePtr list \<Rightarrow> bool" where
  "allocationsDisjoint env heap tables =
     ((\<forall>p \<in> set tables.
         unat (elements (heap p)) + unat (numReservedBytes (heap p)) + guardBytes env \<le> 2 ^ 64)
      \<and> (\<forall>p \<in> set tables. \<forall>q \<in> set tables. p \<noteq> q \<longrightarrow>
            (\<forall>a. \<not> (inAllocation env (heap p) a \<and> inAllocation env (heap q) a))))"

section \<open>Example objects\<close>

text \<open>
  A concrete host: sentinels at two distinct addresses, \<open>IR::maxTableElems\<close> as the
  largest 32-bit value, 4 KiB pages, a commit that always succeeds and an allocator that
  always returns the same base address.
\<close>

definition exampleEnv :: Env where
  "exampleEnv = \<lparr> outOfBoundsAddr = 0x1000, uninitializedAddr = 0x2000,
                  maxTableElems = 0xFFFFFFFF, pageSizeLog2 = 12,
                  commitVirtualPages = (\<lambda>_ _. True),
                  allocateVirtualPages = (\<lambda>_. 0x7F0000000000) \<rparr>"

text \<open>The same host with a commit that always fails.\<close>

definition exampleEnvNoCommit :: Env where
  "exampleEnvNoCommit = exampleEnv\<lparr>commitVirtualPages := (\<lambda>_ _. False)\<rparr>"

text \<open>Four function objects \<open>A\<close>, \<open>B\<close>, \<open>C\<close>, \<open>D\<close>.\<close>

definition objA :: Object where "objA = 0x3000"
definition objB :: Object where "objB = 0x3100"
definition objC :: Object where "objC = 0x3200"
definition objD :: Object where "objD = 0x3300"

text \<open>
  A table of type \<open>{min = 2, max = 4}\<close> holding \<open>[A, B]\<close>, with a quota of ten elements of
  which two are in use.
\<close>

definition exampleTable :: Table where
  "exampleTable = \<lparr> typeSizeMin = 2, typeSizeMax = 4, elements = 0x7F0000000000,
                    biasedValue = (\<lambda>_. 0)(0 := objA - 0x1000, 1 := objB - 0x1000),
                    numElements = 2, numReservedBytes = 0x800000000,
                    numReservedElements = 0x100000000,
                    resourceQuota = Some \<lparr> quotaCurrent = 2, quotaMax = 10 \<rparr> \<rparr>"

text \<open>A table of size 4 holding \<open>[A, B, C, D]\<close>, without a quota.\<close>

definition exampleTable4 :: Table where
  "exampleTable4 = \<lparr> typeSizeMin = 4, typeSizeMax = 4, elements = 0x7F0000000000,
                     biasedValue = (\<lambda>_. 0)(0 := objA - 0x1000, 1 := objB - 0x1000,
                                             2 := objC - 0x1000, 3 := objD - 0x1000),
                     numElements = 4, numReservedBytes = 0x800000000,
                     numReservedElements = 0x100000000,
                     resourceQuota = None \<rparr>"

text \<open>
  A module instance whose functions are all the object \<open>C\<close> and whose segments all hold two
  function entries.
\<close>

definition exampleModule :: ModuleInstance where
  "exampleModule = \<lparr> functionsVec = (\<lambda>_. objC),
                     elemSegments = (\<lambda>_. Some [ref_func 0, ref_func 1]) \<rparr>"

text \<open>A second table with a lower reservation, and a heap holding both.\<close>

definition exampleTableLow :: Table where
  "exampleTableLow = exampleTable\<lparr>elements := 0x7E0000000000\<rparr>"

definition exampleHeap :: Heap where
  "exampleHeap = (\<lambda>_. exampleTable)(0x6000 := exampleTableLow)"

section \<open>Basic facts about slots and the loops\<close>

declare initializeNewElements.simps [simp del]
declare initElemSegmentFrom.simps [simp del]
declare copyDescending.simps [simp del]
declare copyAscending.simps [simp del]
declare fillFrom.simps [simp del]
declare cloneElements.simps [simp del]

lemma saturated_index: "i < r \<Longrightarrow> branchlessMin i (r - 1) = i"
  unfolding branchlessMin_def
  by (simp add: antisym_conv2 less_imp_less_eq_dec)

lemma getTableElementNonNull_in_reservation:
  "i < numReservedElements t \<Longrightarrow>
   getTableElementNonNull env t i =
     (if biasedValue t i = 0 then Inl (outOfBoundsTableAccess i)
      else Inr (biasedValue t i + outOfBoundsAddr env))"
  using leD[of "numReservedElements t" i]
  by (auto simp add: getTableElementNonNull_def saturated_index Let_def
      biasedTableElementValueToObject_def getOutOfBoundsElement_def)

lemma getTableElementNonNull_beyond_reservation:
  "numReservedElements t \<le> i \<Longrightarrow>
   getTableElementNonNull env t i = Inl (outOfBoundsTableAccess i)"
  by (simp add: getTableElementNonNull_def)

lemma setTableElementNonNull_in_reservation:
  "i < numReservedElements t \<Longrightarrow>
   setTableElementNonNull env t i obj =
     (if biasedValue t i = 0 then Inl (outOfBoundsTableAccess i)
      else Inr (biasedValue t i + outOfBoundsAddr env,
                t\<lparr>biasedValue := (biasedValue t)(i := obj - outOfBoundsAddr env)\<rparr>))"
  using leD[of "numReservedElements t" i]
  by (auto simp add: setTableElementNonNull_def saturated_index Let_def
      biasedTableElementValueToObject_def objectToBiasedTableElementValue_def
      getOutOfBoundsElement_def)

lemma setTableElementNonNull_beyond_reservation:
  "numReservedElements t \<le> i \<Longrightarrow>
   setTableElementNonNull env t i obj = Inl (outOfBoundsTableAccess i)"
  by (simp add: setTableElementNonNull_def)

lemma word_succ_le: "(i::64 word) < n \<Longrightarrow> (i + 1 \<le> j) = (i < j)"
  by (metis inc_le interval_class.inc_less_eq_imp_less)

lemma initializeNewElements_eq:
  "initializeNewElements t i n v =
     t\<lparr>biasedValue := (\<lambda>j. if i \<le> j \<and> j < n then v else biasedValue t j)\<rparr>"
proof (induction t i n v rule: initializeNewElements.induct)
  case (1 t i n v)
  show ?case
  proof (cases "i < n")
    case True
    have eq: "\<And>j. (i + 1 \<le> j) = (i < j)" using True by (rule word_succ_le)
    have funs: "(\<lambda>j. if i < j \<and> j < n then v else if j = i then v else biasedValue t j)
              = (\<lambda>j. if i \<le> j \<and> j < n then v else biasedValue t j)"
      using True by (auto simp: fun_eq_iff)
    have "initializeNewElements t i n v =
          initializeNewElements (t\<lparr>biasedValue := (biasedValue t)(i := v)\<rparr>) (i + 1) n v"
      using True by (subst initializeNewElements.simps) simp
    also have "\<dots> = t\<lparr>biasedValue :=
                        (\<lambda>j. if i < j \<and> j < n then v else if j = i then v else biasedValue t j)\<rparr>"
      using 1[OF True] by (simp add: eq fun_upd_def cong: if_cong)
    finally show ?thesis by (simp only: funs)
  next
    case False
    then have "(\<lambda>j. if i \<le> j \<and> j < n then v else biasedValue t j) = biasedValue t"
      by (auto simp: fun_eq_iff)
    moreover have "initializeNewElements t i n v = t"
      using False by (subst initializeNewElements.simps) simp
    ultimately show ?thesis by simp
  qed
qed

lemma exampleTable_I2: "invariantI2 exampleTable"
  by (auto simp: invariantI2_def exampleTable_def word_le_nat_alt)

lemma exampleTable4_I2: "invariantI2 exampleTable4"
  by (auto simp: invariantI2_def exampleTable4_def word_le_nat_alt)

lemma exampleEnv_sentinels: "sentinelsDistinct exampleEnv"
  by (simp add: sentinelsDistinct_def exampleEnv_def)

section \<open>Properties\<close>

text \<open>
  C7. The slot encoding subtracts the address of the out-of-bounds sentinel and the
  decoding adds it back: decoding an encoded reference gives the reference, the
  out-of-bounds sentinel encodes to the zero word, and the zero word decodes to the
  out-of-bounds sentinel.
\<close>

theorem biased_encoding_roundtrip:
  "biasedTableElementValueToObject env (objectToBiasedTableElementValue env r) = r
   \<and> objectToBiasedTableElementValue env (getOutOfBoundsElement env) = 0
   \<and> biasedTableElementValueToObject env 0 = getOutOfBoundsElement env"
  by (simp add: biasedTableElementValueToObject_def objectToBiasedTableElementValue_def)

text \<open>
  C1. On a table that satisfies I2, reading any index at or beyond the current element
  count raises the out-of-bounds table access exception for that index: either the index
  is at or beyond the reserved count, where the explicit bounds check throws, or the
  slot holds the zero word, which decodes to the out-of-bounds sentinel.
\<close>

theorem getTableElement_beyond_size:
  assumes "invariantI2 t" and "numElements t \<le> i"
  shows "getTableElement env t i = Inl (outOfBoundsTableAccess i)
         \<and> (numReservedElements t \<le> i
            \<or> (biasedValue t i = 0
               \<and> biasedTableElementValueToObject env (biasedValue t i) = getOutOfBoundsElement env))"
proof (cases "i < numReservedElements t")
  case True
  with assms have zero: "biasedValue t i = 0"
    by (simp add: invariantI2_def)
  with True show ?thesis
    by (simp add: getTableElement_def getTableElementNonNull_in_reservation
        biasedTableElementValueToObject_def)
next
  case False
  then show ?thesis
    by (simp add: getTableElement_def getTableElementNonNull_beyond_reservation not_less)
qed

theorem getTableElement_beyond_size_witness:
  "invariantI2 exampleTable \<and> numElements exampleTable \<le> 2
   \<and> getTableElement exampleEnv exampleTable 2 = Inl (outOfBoundsTableAccess 2)
   \<and> getTableElement exampleEnv exampleTable 0x100000000 = Inl (outOfBoundsTableAccess 0x100000000)"
proof -
  have le: "numElements exampleTable \<le> 2" "numElements exampleTable \<le> 0x100000000"
    by (simp_all add: exampleTable_def)
  show ?thesis
    using getTableElement_beyond_size [OF exampleTable_I2 le(1), of exampleEnv]
          getTableElement_beyond_size [OF exampleTable_I2 le(2), of exampleEnv] le
    by (simp add: exampleTable_I2)
qed

subsection \<open>Growing a table\<close>

lemma quota_refund:
  "tableElems_allocate q d = Some q' \<Longrightarrow> tableElems_free q' d = q"
  by (auto simp: tableElems_allocate_def tableElems_free_def split: if_splits)

lemma word_limit_exceeded:
  fixes d old m :: "64 word"
  shows "(d > m \<or> old > m - d) = (unat d > unat m \<or> unat old + unat d > unat m)"
proof (cases "d \<le> m")
  case True
  then have "unat (m - d) = unat m - unat d"
    by (simp add: unat_sub)
  moreover from True have "unat d \<le> unat m"
    by (simp add: word_le_nat_alt)
  ultimately show ?thesis
    by (auto simp: word_less_nat_alt)
next
  case False
  then show ?thesis
    by (auto simp: word_less_nat_alt word_le_nat_alt)
qed

lemma growTableImpl_zero:
  "growTableImpl env t 0 init fill = (Some (numElements t), t)"
  by (simp add: growTableImpl_def)

lemma growTableImpl_denied:
  "d \<noteq> 0 \<Longrightarrow> quotaDenied t d \<Longrightarrow> growTableImpl env t d init fill = (None, t)"
  by (auto simp: growTableImpl_def quotaDenied_def split: option.splits)

lemma charged_cases:
  assumes "\<not> quotaDenied t d"
  shows "(case resourceQuota t of None \<Rightarrow> Some None
          | Some q \<Rightarrow> map_option Some (tableElems_allocate q d)) = Some (chargedQuota t d)"
    and "t\<lparr>resourceQuota := map_option (\<lambda>q. tableElems_free q d) (chargedQuota t d)\<rparr> = t"
  using assms
  by (auto simp: quotaDenied_def chargedQuota_def tableElems_allocate_def tableElems_free_def
      split: option.splits if_splits)

lemma growTableImpl_not_denied:
  assumes "d \<noteq> 0" and "\<not> quotaDenied t d"
  shows "growTableImpl env t d init fill =
     (if unat d > unat (typeSizeMax t) \<or> unat (numElements t) + unat d > unat (typeSizeMax t)
         \<or> unat d > unat (maxTableElems env)
         \<or> unat (numElements t) + unat d > unat (maxTableElems env)
         \<or> commitFails env t d
      then (None, t)
      else (Some (numElements t),
            t\<lparr>biasedValue :=
                 (if init
                  then (\<lambda>j. if numElements t \<le> j \<and> j < numElements t + d
                            then fill - outOfBoundsAddr env else biasedValue t j)
                  else biasedValue t),
               numElements := numElements t + d,
               resourceQuota := chargedQuota t d\<rparr>))"
proof -
  define lim where "lim \<longleftrightarrow> d > typeSizeMax t \<or> numElements t > typeSizeMax t - d
                          \<or> d > maxTableElems env \<or> numElements t > maxTableElems env - d"
  have lim_nat: "lim \<longleftrightarrow> unat d > unat (typeSizeMax t)
                     \<or> unat (numElements t) + unat d > unat (typeSizeMax t)
                     \<or> unat d > unat (maxTableElems env)
                     \<or> unat (numElements t) + unat d > unat (maxTableElems env)"
    unfolding lim_def
    using word_limit_exceeded[of "typeSizeMax t" d "numElements t"]
          word_limit_exceeded[of "maxTableElems env" d "numElements t"]
    by blast
  have unfold: "growTableImpl env t d init fill =
      (if lim then (None, t)
       else if commitFails env t d then (None, t)
       else (Some (numElements t),
             (if init
              then initializeNewElements (t\<lparr>resourceQuota := chargedQuota t d\<rparr>) (numElements t)
                     (numElements t + d) (objectToBiasedTableElementValue env fill)
              else t\<lparr>resourceQuota := chargedQuota t d\<rparr>)\<lparr>numElements := numElements t + d\<rparr>))"
    using assms
    by (simp add: growTableImpl_def charged_cases Let_def lim_def commitFails_def
        del: map_option_eq_Some)
  show ?thesis
    unfolding unfold lim_nat
    by (simp add: initializeNewElements_eq objectToBiasedTableElementValue_def
        getOutOfBoundsElement_def cong: if_cong)
qed

lemma growTableImpl_rejected:
  "spec_growRejected env t d \<Longrightarrow> growTableImpl env t d init fill = (None, t)"
  by (cases "quotaDenied t d")
     (auto simp: spec_growRejected_def growTableImpl_denied growTableImpl_not_denied)

lemma growTableImpl_accepted:
  "\<not> spec_growRejected env t d \<Longrightarrow>
   growTableImpl env t d init fill =
     (Some (numElements t),
      if d = 0 then t
      else t\<lparr>biasedValue :=
                 (if init
                  then (\<lambda>j. if numElements t \<le> j \<and> j < numElements t + d
                            then fill - outOfBoundsAddr env else biasedValue t j)
                  else biasedValue t),
               numElements := numElements t + d,
               resourceQuota := chargedQuota t d\<rparr>)"
  by (cases "d = 0")
     (auto simp: spec_growRejected_def growTableImpl_zero growTableImpl_not_denied)

lemma growTableImpl_None_iff:
  "fst (growTableImpl env t d init fill) = None \<longleftrightarrow> spec_growRejected env t d"
  by (cases "spec_growRejected env t d") (simp_all add: growTableImpl_rejected growTableImpl_accepted)

text \<open>
  C2. When grow fails, for whichever of the listed causes (quota denial, delta or new count
  above the type's maximum, delta or new count above the implementation maximum, or page
  commit failure), the table after the call is the table before it: the element count, the
  contents of every slot and the quota consumption are unchanged.
\<close>

theorem growTableImpl_failure_unchanged:
  assumes "growTableImpl env t d init fill = (None, t')"
  shows "spec_growRejected env t d
         \<and> numElements t' = numElements t
         \<and> biasedValue t' = biasedValue t
         \<and> resourceQuota t' = resourceQuota t
         \<and> t' = t"
proof -
  from assms have rej: "spec_growRejected env t d"
    using growTableImpl_None_iff[of env t d init fill] by simp
  with assms have "t' = t"
    by (simp add: growTableImpl_rejected)
  with rej show ?thesis by simp
qed


lemma getTableElement_in_reservation:
  "i < numReservedElements t \<Longrightarrow>
   getTableElement env t i =
     (if biasedValue t i = 0 then Inl (outOfBoundsTableAccess i)
      else Inr (if biasedValue t i + outOfBoundsAddr env = uninitializedAddr env then 0
                else biasedValue t i + outOfBoundsAddr env))"
  by (simp add: getTableElement_def getTableElementNonNull_in_reservation
      getUninitializedElement_def)

lemma getTableElement_cong:
  assumes "numReservedElements t' = numReservedElements t" and "biasedValue t' i = biasedValue t i"
  shows "getTableElement env t' i = getTableElement env t i"
proof (cases "i < numReservedElements t")
  case True
  with assms show ?thesis by (simp add: getTableElement_in_reservation)
next
  case False
  with assms show ?thesis
    by (simp add: getTableElement_def getTableElementNonNull_beyond_reservation not_less)
qed

text \<open>
  C3. When grow with the default fill value (the uninitialized sentinel) succeeds, the
  element count increases by exactly delta, every new slot reads as null at once, and every
  slot below the old count holds the word it held before and reads as before. This is
  for distinct sentinel objects and an implementation maximum that does not exceed the
  reserved count, as \<open>2^32 - 1\<close> does not exceed \<open>2^32\<close>.
\<close>

theorem growTable_success:
  assumes sent: "sentinelsDistinct env"
    and maxr: "maxTableElems env \<le> numReservedElements t"
    and grow: "growTable env t d (getUninitializedElement env) = (Some old, t')"
  shows "old = numElements t
         \<and> unat (numElements t') = unat (numElements t) + unat d
         \<and> (\<forall>j. numElements t \<le> j \<and> j < numElements t' \<longrightarrow> getTableElement env t' j = Inr 0)
         \<and> (\<forall>j. j < numElements t \<longrightarrow>
                biasedValue t' j = biasedValue t j
                \<and> getTableElement env t' j = getTableElement env t j)"
proof (cases "d = 0")
  case True
  with grow have "old = numElements t" "t' = t"
    by (auto simp: growTable_def growTableImpl_zero)
  with True show ?thesis
    by (auto simp: word_less_nat_alt word_le_nat_alt)
next
  case False
  from grow have acc: "\<not> spec_growRejected env t d"
    using growTableImpl_None_iff[of env t d True "getUninitializedElement env"]
    by (simp add: growTable_def)
  have "fst (growTable env t d (getUninitializedElement env)) = Some (numElements t)"
    by (simp add: growTable_def growTableImpl_accepted[OF acc])
  with grow have old: "old = numElements t" by simp
  have "snd (growTable env t d (getUninitializedElement env)) =
          t\<lparr>biasedValue :=
                    (\<lambda>j. if numElements t \<le> j \<and> j < numElements t + d
                         then getUninitializedElement env - outOfBoundsAddr env
                         else biasedValue t j),
                  numElements := numElements t + d,
                  resourceQuota := chargedQuota t d\<rparr>"
    using False by (simp add: growTable_def growTableImpl_accepted[OF acc])
  with grow have t': "t' = t\<lparr>biasedValue :=
                    (\<lambda>j. if numElements t \<le> j \<and> j < numElements t + d
                         then getUninitializedElement env - outOfBoundsAddr env
                         else biasedValue t j),
                  numElements := numElements t + d,
                  resourceQuota := chargedQuota t d\<rparr>"
    by simp
  from acc False have bound: "unat (numElements t) + unat d \<le> unat (maxTableElems env)"
    by (simp add: spec_growRejected_def not_less)
  have "unat (maxTableElems env) < 2 ^ 64"
    using unsigned_less[of "maxTableElems env"] by simp
  with bound have sum: "unat (numElements t + d) = unat (numElements t) + unat d"
    by (simp add: unat_add_lem[THEN iffD1])
  have new_le: "numElements t + d \<le> numReservedElements t"
    using bound sum maxr by (simp add: word_le_nat_alt)
  have fillw: "getUninitializedElement env - outOfBoundsAddr env \<noteq> 0"
    using sent by (auto simp: sentinelsDistinct_def getUninitializedElement_def)
  have new_slots: "getTableElement env t' j = Inr 0"
    if "numElements t \<le> j" and "j < numElements t'" for j
  proof -
    from that t' have lt: "j < numElements t + d" by simp
    with new_le have "j < numReservedElements t'" using t' by simp
    then show ?thesis
      using that(1) lt fillw
      by (simp add: getTableElement_in_reservation t' getUninitializedElement_def)
  qed
  have old_slots: "biasedValue t' j = biasedValue t j
                   \<and> getTableElement env t' j = getTableElement env t j"
    if "j < numElements t" for j
  proof -
    from that have nle: "\<not> numElements t \<le> j" by (simp add: not_le)
    then have bv: "biasedValue t' j = biasedValue t j" by (simp add: t')
    have res: "numReservedElements t' = numReservedElements t" by (simp add: t')
    from res bv have "getTableElement env t' j = getTableElement env t j"
      by (rule getTableElement_cong)
    with bv show ?thesis by simp
  qed
  from old sum new_slots old_slots show ?thesis
    by (simp add: t')
qed

text \<open>
  C10. The intrinsic \<open>table.grow\<close> returns \<open>-1\<close> when the grow is rejected for any of its
  causes and leaves the heap as it was; otherwise it returns the element count from before
  the growth, truncated to 32 bits, and stores the grown table. A null fill reference is
  replaced by the uninitialized sentinel before growing.
\<close>

theorem table_grow_result:
  "table_grow env heap crd initialValue delta tableId =
     (let table = getTableFromRuntimeData crd tableId;
          fill = (if initialValue = 0 then getUninitializedElement env else initialValue)
      in if spec_growRejected env (heap table) (ucast delta) then (- 1, heap)
         else (ucast (numElements (heap table)),
               heap(table := snd (growTable env (heap table) (ucast delta) fill))))
   \<and> table_grow env heap crd 0 delta tableId =
       table_grow env heap crd (getUninitializedElement env) delta tableId"
proof -
  let ?p = "getTableFromRuntimeData crd tableId"
  have null: "table_grow env heap crd 0 delta tableId =
              table_grow env heap crd (getUninitializedElement env) delta tableId"
    by (simp add: table_grow_def)
  have "table_grow env heap crd initialValue delta tableId =
          (if spec_growRejected env (heap ?p) (ucast delta) then (- 1, heap)
           else (ucast (numElements (heap ?p)),
                 heap(?p := snd (growTable env (heap ?p) (ucast delta)
                     (if initialValue = 0 then getUninitializedElement env else initialValue)))))"
  proof (cases "spec_growRejected env (heap ?p) (ucast delta)")
    case True
    then show ?thesis
      by (simp add: table_grow_def growTable_def growTableImpl_rejected)
  next
    case False
    then show ?thesis
      by (simp add: table_grow_def growTable_def growTableImpl_accepted Let_def)
  qed
  with null show ?thesis by (simp add: Let_def)
qed

lemma exampleTable_grow3: "spec_growRejected exampleEnv exampleTable 3"
  by (simp add: spec_growRejected_def exampleTable_def)

lemma exampleTable_grow1: "\<not> spec_growRejected exampleEnv exampleTable 1"
  by (simp add: spec_growRejected_def exampleTable_def exampleEnv_def quotaDenied_def
      tableElems_allocate_def commitFails_def)

theorem table_grow_result_witness:
  "fst (table_grow exampleEnv (\<lambda>_. exampleTable) (\<lambda>_. 0x5000) 0 3 0) = - 1
   \<and> fst (table_grow exampleEnv (\<lambda>_. exampleTable) (\<lambda>_. 0x5000) 0 1 0) = 2"
  using table_grow_result [of exampleEnv "\<lambda>_. exampleTable" "\<lambda>_. 0x5000" 0 3 0]
        table_grow_result [of exampleEnv "\<lambda>_. exampleTable" "\<lambda>_. 0x5000" 0 1 0]
        exampleTable_grow3 exampleTable_grow1
  by (simp add: Let_def exampleTable_def)

theorem growTableImpl_failure_unchanged_witness:
  "growTableImpl exampleEnv exampleTable 3 True (getUninitializedElement exampleEnv)
     = (None, exampleTable)
   \<and> spec_growRejected exampleEnv exampleTable 3
   \<and> growTableImpl exampleEnvNoCommit (exampleTable\<lparr>numElements := 0\<rparr>) 2 True objA
     = (None, exampleTable\<lparr>numElements := 0\<rparr>)"
proof -
  have h1: "growTableImpl exampleEnv exampleTable 3 True (getUninitializedElement exampleEnv)
              = (None, exampleTable)"
    by (simp add: growTableImpl_def exampleTable_def exampleEnv_def tableElems_allocate_def
        tableElems_free_def Let_def)
  have h2: "growTableImpl exampleEnvNoCommit (exampleTable\<lparr>numElements := 0\<rparr>) 2 True objA
              = (None, exampleTable\<lparr>numElements := 0\<rparr>)"
    by (simp add: growTableImpl_def exampleTable_def exampleEnv_def exampleEnvNoCommit_def
        tableElems_allocate_def tableElems_free_def Let_def getNumPlatformPages_def
        sizeofTableElement_def)
  show ?thesis
    using growTableImpl_failure_unchanged [OF h1] growTableImpl_failure_unchanged [OF h2] h1 h2
    by simp
qed

lemma exampleTable_grow2:
  "growTable exampleEnv exampleTable 2 (getUninitializedElement exampleEnv) =
     (Some 2, exampleTable\<lparr>biasedValue := (\<lambda>j. if 2 \<le> j \<and> j < 4 then 0x1000 else biasedValue exampleTable j),
                           numElements := 4,
                           resourceQuota := Some \<lparr>quotaCurrent = 4, quotaMax = 10\<rparr>\<rparr>)"
  by (simp add: growTable_def growTableImpl_def exampleTable_def exampleEnv_def
      tableElems_allocate_def Let_def getNumPlatformPages_def sizeofTableElement_def
      initializeNewElements_eq objectToBiasedTableElementValue_def getOutOfBoundsElement_def
      getUninitializedElement_def cong: if_cong)

theorem growTable_success_witness:
  "sentinelsDistinct exampleEnv \<and> maxTableElems exampleEnv \<le> numReservedElements exampleTable
   \<and> fst (growTable exampleEnv exampleTable 2 (getUninitializedElement exampleEnv)) = Some 2
   \<and> numElements (snd (growTable exampleEnv exampleTable 2 (getUninitializedElement exampleEnv))) = 4
   \<and> getTableElement exampleEnv
        (snd (growTable exampleEnv exampleTable 2 (getUninitializedElement exampleEnv))) 3 = Inr 0
   \<and> getTableElement exampleEnv
        (snd (growTable exampleEnv exampleTable 2 (getUninitializedElement exampleEnv))) 1 = Inr objB"
proof -
  let ?t' = "snd (growTable exampleEnv exampleTable 2 (getUninitializedElement exampleEnv))"
  have m: "maxTableElems exampleEnv \<le> numReservedElements exampleTable"
    by (simp add: exampleEnv_def exampleTable_def)
  have g: "growTable exampleEnv exampleTable 2 (getUninitializedElement exampleEnv) = (Some 2, ?t')"
    by (simp add: exampleTable_grow2)
  note th = growTable_success [OF exampleEnv_sentinels m g]
  have n: "numElements ?t' = 4"
    by (simp add: exampleTable_grow2)
  have "numElements exampleTable \<le> 3 \<and> 3 < numElements ?t'"
    by (simp add: n) (simp add: exampleTable_def)
  with th have new: "getTableElement exampleEnv ?t' 3 = Inr 0"
    by blast
  have b: "getTableElement exampleEnv exampleTable 1 = Inr objB"
    by (simp add: getTableElement_in_reservation exampleTable_def exampleEnv_def objB_def)
  have "(1 :: Uptr) < numElements exampleTable"
    by (simp add: exampleTable_def)
  with th have "getTableElement exampleEnv ?t' 1 = getTableElement exampleEnv exampleTable 1"
    by blast
  with b new n m exampleEnv_sentinels show ?thesis
    by (simp add: exampleTable_grow2)
qed

subsection \<open>Invariant I2\<close>

lemma setTableElementNonNull_success:
  assumes "setTableElementNonNull env t i obj = Inr (old, t')"
  shows "i < numReservedElements t \<and> biasedValue t i \<noteq> 0
         \<and> old = biasedValue t i + outOfBoundsAddr env
         \<and> t' = t\<lparr>biasedValue := (biasedValue t)(i := obj - outOfBoundsAddr env)\<rparr>"
proof (cases "i < numReservedElements t")
  case True
  with assms show ?thesis
    by (auto simp: setTableElementNonNull_in_reservation split: if_splits)
next
  case False
  with assms show ?thesis
    by (simp add: setTableElementNonNull_beyond_reservation not_less)
qed

lemma setTableElementNonNull_I2:
  assumes "invariantI2 t" and "setTableElementNonNull env t i obj = Inr (old, t')"
  shows "invariantI2 t'"
proof -
  note s = setTableElementNonNull_success[OF assms(2)]
  from s assms(1) have "i < numElements t"
    by (auto simp: invariantI2_def not_le[symmetric])
  with s assms(1) show ?thesis
    by (auto simp: invariantI2_def)
qed

lemma setTableElementNonNull_beyond_size:
  assumes "invariantI2 t" and "numElements t \<le> i"
  shows "setTableElementNonNull env t i obj = Inl (outOfBoundsTableAccess i)"
proof (cases "i < numReservedElements t")
  case True
  with assms have "biasedValue t i = 0" by (simp add: invariantI2_def)
  with True show ?thesis by (simp add: setTableElementNonNull_in_reservation)
next
  case False
  then show ?thesis by (simp add: setTableElementNonNull_beyond_reservation not_less)
qed

lemma setTableElement_I2:
  assumes "invariantI2 t" and "setTableElement env t i v = Inr (old, t')"
  shows "invariantI2 t'"
  using assms
  by (auto simp: setTableElement_def Let_def split: sum.splits dest: setTableElementNonNull_I2)

lemma setTableElement_beyond_size:
  assumes "invariantI2 t" and "numElements t \<le> i"
  shows "setTableElement env t i v = Inl (outOfBoundsTableAccess i)"
  using assms by (simp add: setTableElement_def setTableElementNonNull_beyond_size)

lemma fillFrom_I2:
  "invariantI2 t \<Longrightarrow> invariantI2 (snd (fillFrom env t dOff v n index))"
proof (induction env t dOff v n index rule: fillFrom.induct)
  case (1 env t dOff v n index)
  show ?case
  proof (cases "index < ucast n")
    case False
    with "1.prems" show ?thesis by (subst fillFrom.simps) simp
  next
    case True
    show ?thesis
    proof (cases "setTableElementNonNull env t (ucast dOff + index) v")
      case (Inl e)
      with True "1.prems" show ?thesis by (subst fillFrom.simps) simp
    next
      case (Inr r)
      obtain old t' where r: "r = (old, t')" by (cases r)
      from "1.prems" Inr r have "invariantI2 t'"
        by (auto dest: setTableElementNonNull_I2)
      with "1.IH"[OF True Inr r[symmetric]] True Inr r show ?thesis
        by (subst fillFrom.simps) simp
    qed
  qed
qed

lemma initElemSegmentFrom_I2:
  "invariantI2 t \<Longrightarrow>
   invariantI2 (snd (initElemSegmentFrom env mi seg ev t dOff sOff n index))"
proof (induction env mi seg ev t dOff sOff n index rule: initElemSegmentFrom.induct)
  case (1 env mi seg ev t dOff sOff n index)
  let ?obj = "case ev ! unat (sOff + index) of ref_null \<Rightarrow> 0 | ref_func i \<Rightarrow> functionsVec mi i"
  show ?case
  proof (cases "index < n \<and> \<not> (length ev \<le> unat (sOff + index) \<or> sOff + index < sOff)")
    case False
    with "1.prems" show ?thesis by (subst initElemSegmentFrom.simps) (auto simp: Let_def)
  next
    case True
    show ?thesis
    proof (cases "setTableElement env t (dOff + index) ?obj")
      case (Inl e)
      with True "1.prems" show ?thesis by (subst initElemSegmentFrom.simps) (simp add: Let_def)
    next
      case (Inr r)
      obtain old t' where r: "r = (old, t')" by (cases r)
      from "1.prems" Inr r have "invariantI2 t'"
        by (auto dest: setTableElement_I2)
      with "1.IH"[OF _ refl refl _ refl Inr r[symmetric]] True Inr r show ?thesis
        by (subst initElemSegmentFrom.simps) (simp add: Let_def)
    qed
  qed
qed

lemma copyAscending_I2:
  "\<forall>p. invariantI2 (heap p) \<Longrightarrow>
   invariantI2 (snd (copyAscending env heap st dt dOff sOff n index) p)"
proof (induction env heap st dt dOff sOff n index rule: copyAscending.induct)
  case (1 env heap st dt dOff sOff n index)
  show ?case
  proof (cases "index < ucast n")
    case False
    with "1.prems" show ?thesis by (subst copyAscending.simps) simp
  next
    case True
    show ?thesis
    proof (cases "getTableElementNonNull env (heap st) (ucast sOff + index)")
      case (Inl e)
      with True "1.prems" show ?thesis by (subst copyAscending.simps) simp
    next
      case (Inr obj)
      note get = Inr
      show ?thesis
      proof (cases "setTableElementNonNull env (heap dt) (ucast dOff + index) obj")
        case (Inl e)
        with True get "1.prems" show ?thesis by (subst copyAscending.simps) simp
      next
        case (Inr r)
        obtain old t' where r: "r = (old, t')" by (cases r)
        from "1.prems" Inr r have "invariantI2 t'"
          by (auto dest: setTableElementNonNull_I2)
        with "1.prems" have "\<forall>p. invariantI2 ((heap(dt := t')) p)" by simp
        then have "invariantI2 (snd (copyAscending env (heap(dt := t')) st dt dOff sOff n (index + 1)) p)"
          by (rule "1.IH"[OF True get Inr r[symmetric]])
        moreover have "copyAscending env heap st dt dOff sOff n index =
                       copyAscending env (heap(dt := t')) st dt dOff sOff n (index + 1)"
          using True get Inr r by (subst copyAscending.simps) simp
        ultimately show ?thesis by simp
      qed
    qed
  qed
qed

lemma copyDescending_I2:
  "\<forall>p. invariantI2 (heap p) \<Longrightarrow>
   invariantI2 (snd (copyDescending env heap st dt dOff sOff n index) p)"
proof (induction env heap st dt dOff sOff n index rule: copyDescending.induct)
  case (1 env heap st dt dOff sOff n index)
  show ?case
  proof (cases "index < ucast n")
    case False
    with "1.prems" show ?thesis by (subst copyDescending.simps) simp
  next
    case True
    show ?thesis
    proof (cases "getTableElementNonNull env (heap st) (ucast sOff + (ucast n - index - 1))")
      case (Inl e)
      with True "1.prems" show ?thesis by (subst copyDescending.simps) simp
    next
      case (Inr obj)
      note get = Inr
      show ?thesis
      proof (cases "setTableElementNonNull env (heap dt) (ucast dOff + (ucast n - index - 1)) obj")
        case (Inl e)
        with True get "1.prems" show ?thesis by (subst copyDescending.simps) simp
      next
        case (Inr r)
        obtain old t' where r: "r = (old, t')" by (cases r)
        from "1.prems" Inr r have "invariantI2 t'"
          by (auto dest: setTableElementNonNull_I2)
        with "1.prems" have "\<forall>p. invariantI2 ((heap(dt := t')) p)" by simp
        then have "invariantI2 (snd (copyDescending env (heap(dt := t')) st dt dOff sOff n (index + 1)) p)"
          by (rule "1.IH"[OF True get Inr r[symmetric]])
        moreover have "copyDescending env heap st dt dOff sOff n index =
                       copyDescending env (heap(dt := t')) st dt dOff sOff n (index + 1)"
          using True get Inr r by (subst copyDescending.simps) simp
        ultimately show ?thesis by simp
      qed
    qed
  qed
qed


lemma accepted_no_wrap:
  assumes "\<not> spec_growRejected env t d"
  shows "unat (numElements t + d) = unat (numElements t) + unat d"
proof (cases "d = 0")
  case True
  then show ?thesis by simp
next
  case False
  with assms have "unat (numElements t) + unat d \<le> unat (maxTableElems env)"
    by (simp add: spec_growRejected_def not_less)
  moreover have "unat (maxTableElems env) < 2 ^ 64"
    using unsigned_less[of "maxTableElems env"] by simp
  ultimately show ?thesis
    by (simp add: unat_add_lem[THEN iffD1])
qed

lemma growTableImpl_I2:
  assumes "invariantI2 t"
  shows "invariantI2 (snd (growTableImpl env t d init fill))"
proof (cases "spec_growRejected env t d")
  case True
  with assms show ?thesis by (simp add: growTableImpl_rejected)
next
  case False
  have le: "numElements t \<le> numElements t + d"
    using accepted_no_wrap[OF False] by (simp add: word_le_nat_alt)
  have "biasedValue t i = 0"
    if "numElements t + d \<le> i" and "i < numReservedElements t" for i
    using that le assms by (auto simp: invariantI2_def)
  then show ?thesis
    using assms by (auto simp: growTableImpl_accepted[OF False] invariantI2_def)
qed

lemma createTableImpl_I2:
  assumes "\<forall>p. invariantI2 (heap p)"
  shows "invariantI2 (fst (snd (createTableImpl env heap tables new smin smax quota)) p)"
  using assms by (auto simp: createTableImpl_def Let_def invariantI2_def)

lemma deleteTable_I2:
  assumes "\<forall>p. invariantI2 (heap p)"
  shows "invariantI2 (fst (deleteTable heap tables this) p)"
  using assms by (simp add: deleteTable_def invariantI2_def)

lemma createTable_I2:
  assumes "\<forall>p. invariantI2 (heap p)"
  shows "invariantI2 (fst (snd (createTable env heap tables new smin smax element quota newId)) p)"
proof -
  obtain r heap' tables' where c: "createTableImpl env heap tables new smin smax quota = (r, heap', tables')"
    by (cases "createTableImpl env heap tables new smin smax quota") auto
  have h': "\<forall>p. invariantI2 (heap' p)"
    using createTableImpl_I2[OF assms, of env tables new smin smax quota] c by simp
  show ?thesis
  proof (cases r)
    case None
    with c h' show ?thesis by (simp add: createTable_def)
  next
    case (Some table)
    let ?g = "growTableImpl env (heap' table) smin True
                (if element = 0 then getUninitializedElement env else element)"
    have "invariantI2 (snd ?g)" using h' by (simp add: growTableImpl_I2)
    then have all: "\<forall>p. invariantI2 ((heap'(table := snd ?g)) p)"
      using h' by (auto simp: growTableImpl_I2)
    then have del: "invariantI2 (fst (deleteTable (heap'(table := snd ?g)) tables' table) p)"
      by (rule deleteTable_I2)
    obtain o' grown where g: "?g = (o', grown)" by (cases ?g)
    show ?thesis
    proof (cases "o' = None \<or> newId = - 1")
      case True
      then have "fst (snd (createTable env heap tables new smin smax element quota newId)) =
                 fst (deleteTable (heap'(table := grown)) tables' table)"
        using c Some g by (auto simp: createTable_def Let_def split: prod.splits option.splits)
      with del g show ?thesis by simp
    next
      case False
      then have "fst (snd (createTable env heap tables new smin smax element quota newId)) =
                 heap'(table := grown)"
        using c Some g by (auto simp: createTable_def Let_def)
      with all g show ?thesis by simp
    qed
  qed
qed

lemma cloneElements_eq:
  "cloneElements table newTable i n =
     newTable\<lparr>biasedValue :=
       (\<lambda>j. if i \<le> j \<and> j < n then biasedValue table j else biasedValue newTable j)\<rparr>"
proof (induction table newTable i n rule: cloneElements.induct)
  case (1 table newTable i n)
  show ?case
  proof (cases "i < n")
    case True
    have eq: "\<And>j. (i + 1 \<le> j) = (i < j)" using True by (rule word_succ_le)
    have funs: "(\<lambda>j. if i < j \<and> j < n then biasedValue table j
                     else if j = i then biasedValue table i else biasedValue newTable j)
              = (\<lambda>j. if i \<le> j \<and> j < n then biasedValue table j else biasedValue newTable j)"
      using True by (auto simp: fun_eq_iff)
    have "cloneElements table newTable i n =
          cloneElements table
            (newTable\<lparr>biasedValue := (biasedValue newTable)(i := biasedValue table i)\<rparr>) (i + 1) n"
      using True by (subst cloneElements.simps) simp
    also have "\<dots> = newTable\<lparr>biasedValue :=
                 (\<lambda>j. if i < j \<and> j < n then biasedValue table j
                      else if j = i then biasedValue table i else biasedValue newTable j)\<rparr>"
      using 1[OF True] by (simp add: eq fun_upd_def cong: if_cong)
    finally show ?thesis by (simp only: funs)
  next
    case False
    then have "(\<lambda>j. if i \<le> j \<and> j < n then biasedValue table j else biasedValue newTable j)
               = biasedValue newTable"
      by (auto simp: fun_eq_iff)
    moreover have "cloneElements table newTable i n = newTable"
      using False by (subst cloneElements.simps) simp
    ultimately show ?thesis by simp
  qed
qed

lemma cloneTable_I2:
  assumes "\<forall>p. invariantI2 (heap p)"
  shows "invariantI2 (fst (snd (cloneTable env heap tables srcPtr new)) p)"
proof -
  let ?n = "numElements (heap srcPtr)"
  obtain r heap' tables' where
    c: "createTableImpl env heap tables new (typeSizeMin (heap srcPtr))
          (typeSizeMax (heap srcPtr)) (resourceQuota (heap srcPtr)) = (r, heap', tables')"
    by (cases "createTableImpl env heap tables new (typeSizeMin (heap srcPtr))
          (typeSizeMax (heap srcPtr)) (resourceQuota (heap srcPtr))") auto
  have h': "\<forall>p. invariantI2 (heap' p)"
    using createTableImpl_I2[OF assms, of env tables new "typeSizeMin (heap srcPtr)"
        "typeSizeMax (heap srcPtr)" "resourceQuota (heap srcPtr)"] c by simp
  show ?thesis
  proof (cases r)
    case None
    with c h' show ?thesis by (simp add: cloneTable_def)
  next
    case (Some newTable)
    then have fresh: "numElements (heap' newTable) = 0"
      using c by (auto simp: createTableImpl_def Let_def split: if_splits)
    let ?g = "growTableImpl env (heap' newTable) ?n False (getUninitializedElement env)"
    have gI2: "invariantI2 (snd ?g)" using h' by (simp add: growTableImpl_I2)
    show ?thesis
    proof (cases "fst ?g")
      case None
      then have "fst (snd (cloneTable env heap tables srcPtr new)) =
                   fst (deleteTable (heap'(newTable := snd ?g)) tables' newTable)"
        using c Some by (cases ?g) (simp add: cloneTable_def split: prod.splits)
      moreover from h' gI2 have "\<forall>p. invariantI2 ((heap'(newTable := snd ?g)) p)" by simp
      then have "invariantI2 (fst (deleteTable (heap'(newTable := snd ?g)) tables' newTable) p)"
        by (rule deleteTable_I2)
      ultimately show ?thesis by simp
    next
      case (Some old)
      then have acc: "\<not> spec_growRejected env (heap' newTable) ?n"
        using growTableImpl_None_iff[of env "heap' newTable" ?n False "getUninitializedElement env"]
        by simp
      have cnt: "numElements (snd ?g) = ?n"
        using fresh by (simp add: growTableImpl_accepted[OF acc])
      let ?shared = "heap'(srcPtr := (heap' srcPtr)\<lparr>resourceQuota := resourceQuota (snd ?g)\<rparr>)"
      let ?copy = "cloneElements (?shared srcPtr) (snd ?g) 0 ?n"
      have sh: "\<forall>p. invariantI2 (?shared p)"
        using h' by (simp add: invariantI2_def)
      have "invariantI2 ?copy"
        using gI2 cnt by (auto simp: cloneElements_eq invariantI2_def)
      with sh have "invariantI2 ((?shared(newTable := ?copy)) p)" by simp
      moreover have "cloneTable env heap tables srcPtr new =
                       (Some newTable, ?shared(newTable := ?copy), tables')"
        using c \<open>r = Some newTable\<close> Some by (cases ?g) (simp add: cloneTable_def Let_def)
      ultimately show ?thesis by simp
    qed
  qed
qed

lemma table_grow_I2:
  assumes "\<forall>p. invariantI2 (heap p)"
  shows "invariantI2 (snd (table_grow env heap crd initialValue delta tableId) p)"
proof -
  let ?t = "getTableFromRuntimeData crd tableId"
  let ?g = "growTable env (heap ?t) (ucast delta)
              (if initialValue \<noteq> 0 then initialValue else getUninitializedElement env)"
  have "invariantI2 (snd ?g)" using assms by (simp add: growTable_def growTableImpl_I2)
  with assms have "invariantI2 ((heap(?t := snd ?g)) p)" by simp
  then show ?thesis
    by (cases ?g) (auto simp: table_grow_def Let_def split: option.splits)
qed

lemma table_fill_I2:
  assumes "\<forall>p. invariantI2 (heap p)"
  shows "invariantI2 (snd (table_fill env heap crd dOff v n tableId) p)"
proof -
  let ?t = "getTableFromRuntimeData crd tableId"
  let ?f = "fillFrom env (heap ?t) dOff (if v = 0 then getUninitializedElement env else v) n 0"
  have "invariantI2 (snd ?f)" using assms by (simp add: fillFrom_I2)
  with assms have "invariantI2 ((heap(?t := snd ?f)) p)" by simp
  then show ?thesis
    by (cases ?f) (auto simp: table_fill_def Let_def)
qed

lemma initElemSegment_I2:
  "invariantI2 t \<Longrightarrow> invariantI2 (snd (initElemSegment env mi seg ev t dOff sOff n))"
  by (simp add: initElemSegment_def initElemSegmentFrom_I2)

lemma table_init_I2:
  assumes "\<forall>p. invariantI2 (heap p)"
  shows "invariantI2 (snd (table_init env heap crd mi dOff sOff n tableId seg) p)"
proof (cases "elemSegments mi seg")
  case None
  with assms show ?thesis by (simp add: table_init_def)
next
  case (Some ev)
  let ?t = "getTableFromRuntimeData crd tableId"
  let ?f = "initElemSegment env mi seg ev (heap ?t) (ucast dOff) (ucast sOff) (ucast n)"
  have "invariantI2 (snd ?f)" using assms by (simp add: initElemSegment_I2)
  with assms have "invariantI2 ((heap(?t := snd ?f)) p)" by simp
  then show ?thesis
    using Some by (cases ?f) (auto simp: table_init_def Let_def)
qed

lemma table_copy_I2:
  assumes "\<forall>p. invariantI2 (heap p)"
  shows "invariantI2 (snd (table_copy env heap crd dOff sOff n sid did) p)"
  using assms by (simp add: table_copy_def Let_def copyAscending_I2 copyDescending_I2)

text \<open>
  C6. Every table operation preserves I2: grow (with or without initialisation and for any
  fill object), a successful set, the init of an element segment, and on a heap of tables
  create, clone, \<open>table.grow\<close>, \<open>table.fill\<close>, \<open>table.init\<close> and \<open>table.copy\<close>, whether they
  complete, fail or stop at an exception. In particular a set at an index at or beyond the
  current element count raises the out-of-bounds table access exception, which the source
  throws before the exchange, so the slot is not written.
\<close>

theorem invariantI2_preserved:
  "(invariantI2 t \<longrightarrow> invariantI2 (snd (growTableImpl env t d init fill)))
   \<and> (invariantI2 t \<longrightarrow> (\<forall>old t'. setTableElement env t i v = Inr (old, t') \<longrightarrow> invariantI2 t'))
   \<and> (invariantI2 t \<and> numElements t \<le> i \<longrightarrow>
        setTableElement env t i v = Inl (outOfBoundsTableAccess i)
        \<and> setTableElementNonNull env t i v = Inl (outOfBoundsTableAccess i))
   \<and> (invariantI2 t \<longrightarrow> invariantI2 (snd (initElemSegment env mi seg ev t dOff sOff n)))
   \<and> ((\<forall>p. invariantI2 (heap p)) \<longrightarrow>
        (\<forall>p. invariantI2 (fst (snd (createTable env heap tables new smin smax element quota newId)) p)
           \<and> invariantI2 (fst (snd (cloneTable env heap tables srcPtr new)) p)
           \<and> invariantI2 (snd (table_grow env heap crd v delta32 tableId) p)
           \<and> invariantI2 (snd (table_fill env heap crd dOff32 v n32 tableId) p)
           \<and> invariantI2 (snd (table_init env heap crd mi dOff32 sOff32 n32 tableId seg) p)
           \<and> invariantI2 (snd (table_copy env heap crd dOff32 sOff32 n32 srcId tableId) p)))"
  by (auto simp add: growTableImpl_I2 setTableElement_beyond_size
      setTableElementNonNull_beyond_size initElemSegment_I2 createTable_I2 table_grow_I2
      table_fill_I2 table_init_I2 table_copy_I2 cloneTable_I2
      dest: setTableElement_I2)

theorem invariantI2_preserved_witness:
  "invariantI2 exampleTable \<and> numElements exampleTable \<le> 2
   \<and> setTableElement exampleEnv exampleTable 2 objC = Inl (outOfBoundsTableAccess 2)
   \<and> invariantI2 (snd (growTableImpl exampleEnv exampleTable 1 True objC))
   \<and> invariantI2 exampleTable4
   \<and> invariantI2 (snd (table_copy exampleEnv (\<lambda>_. exampleTable4) (\<lambda>_. 0x5000) 1 0 3 0 0) 0x5000)"
proof -
  note th = invariantI2_preserved [where t = exampleTable and env = exampleEnv and i = 2
      and v = objC and d = 1 and init = True and fill = objC
      and heap = "\<lambda>_. exampleTable4" and crd = "\<lambda>_. 0x5000"
      and ?dOff32.0 = 1 and ?sOff32.0 = 0 and ?n32.0 = 3 and srcId = 0 and tableId = 0]
  have le: "numElements exampleTable \<le> 2"
    by (simp add: exampleTable_def)
  from th exampleTable_I2 exampleTable4_I2 le show ?thesis
    by simp
qed

subsection \<open>Initialising from an element segment\<close>

lemma setTableElement_result:
  "setTableElement env t i v =
     (if i < numReservedElements t \<and> biasedValue t i \<noteq> 0
      then Inr (if biasedValue t i + outOfBoundsAddr env = uninitializedAddr env then 0
                else biasedValue t i + outOfBoundsAddr env,
                t\<lparr>biasedValue := (biasedValue t)
                     (i := (if v = 0 then uninitializedAddr env else v) - outOfBoundsAddr env)\<rparr>)
      else Inl (outOfBoundsTableAccess i))"
proof (cases "i < numReservedElements t")
  case True
  then show ?thesis
    by (simp add: setTableElement_def setTableElementNonNull_in_reservation Let_def
        getUninitializedElement_def)
next
  case False
  then show ?thesis
    by (simp add: setTableElement_def setTableElementNonNull_beyond_reservation Let_def not_less)
qed

lemmas example_defs = exampleEnv_def exampleTable_def exampleTable4_def
  objA_def objB_def objC_def objD_def

lemma exampleInit_result: "initElemSegment exampleEnv exampleModule 0 [ref_func 0, ref_func 1] exampleTable 0 1 2
  = (Some (outOfBoundsElemSegmentAccess 0 2),
     exampleTable\<lparr>biasedValue := (biasedValue exampleTable)(0 := objC - 0x1000)\<rparr>)"
  by (simp add: initElemSegment_def initElemSegmentFrom.simps Let_def setTableElement_result
      exampleModule_def example_defs)


lemma word_succ_unat: "(i::64 word) < k \<Longrightarrow> unat (i + 1) = unat i + 1"
  by (metis (no_types, lifting) add.commute add_0 inc_i inc_le
      unat_plus_simple unsigned_0 unsigned_1 word_gt_0)

lemma setTableElement_writable:
  "setTableElement env t i v =
     (if slotWritable t i
      then Inr (if biasedValue t i + outOfBoundsAddr env = uninitializedAddr env then 0
                else biasedValue t i + outOfBoundsAddr env,
                t\<lparr>biasedValue := (biasedValue t)
                     (i := objectToBiasedTableElementValue env
                             (if v = 0 then getUninitializedElement env else v))\<rparr>)
      else Inl (outOfBoundsTableAccess i))"
  by (simp add: setTableElement_result slotWritable_def objectToBiasedTableElementValue_def
      getUninitializedElement_def getOutOfBoundsElement_def)

lemma initElemSegmentFrom_exact:
  assumes "k < n" and "sourceOutOfRange ev sOff k"
  shows "\<lbrakk>\<forall>i. idx \<le> i \<and> i < k \<longrightarrow> \<not> sourceOutOfRange ev sOff i;
          idx \<le> m; m \<le> k;
          \<forall>i. idx \<le> i \<and> i < m \<longrightarrow> slotWritable t (dOff + i);
          m < k \<longrightarrow> \<not> slotWritable t (dOff + m)\<rbrakk>
         \<Longrightarrow> initElemSegmentFrom env mi seg ev t dOff sOff n idx =
           (Some (if m = k then outOfBoundsElemSegmentAccess seg (sOff + k)
                  else outOfBoundsTableAccess (dOff + m)),
            t\<lparr>biasedValue :=
                 (\<lambda>j. if idx \<le> j - dOff \<and> j - dOff < m
                      then segmentEntryWord env mi ev (sOff + (j - dOff))
                      else biasedValue t j)\<rparr>)"
proof (induction "unat m - unat idx" arbitrary: idx t)
  case 0
  then have eq: "idx = m"
    by (simp add: word_le_nat_alt word_unat_eq_iff)
  have same: "t\<lparr>biasedValue :=
                 (\<lambda>j. if idx \<le> j - dOff \<and> j - dOff < m
                      then segmentEntryWord env mi ev (sOff + (j - dOff))
                      else biasedValue t j)\<rparr> = t"
    using eq by (simp add: not_less[symmetric] cong: if_cong)
  show ?case
  proof (cases "m = k")
    case True
    with eq assms have "initElemSegmentFrom env mi seg ev t dOff sOff n idx =
                          (Some (outOfBoundsElemSegmentAccess seg (sOff + k)), t)"
      by (subst initElemSegmentFrom.simps) (simp add: Let_def sourceOutOfRange_def)
    with True same show ?thesis by simp
  next
    case False
    with "0.prems" have lt: "m < k" by simp
    with "0.prems" have nw: "\<not> slotWritable t (dOff + m)" by simp
    from lt assms(1) have "m < n" by simp
    moreover from lt "0.prems"(1) eq have "\<not> sourceOutOfRange ev sOff m" by simp
    ultimately have "initElemSegmentFrom env mi seg ev t dOff sOff n m =
                       (Some (outOfBoundsTableAccess (dOff + m)), t)"
      using nw
      by (subst initElemSegmentFrom.simps)
         (simp add: Let_def sourceOutOfRange_def setTableElement_writable)
    with False same eq show ?thesis by simp
  qed
next
  case (Suc d)
  from Suc.hyps(2) have lt: "idx < m"
    by (simp add: word_less_nat_alt)
  with Suc.prems have ltk: "idx < k" by simp
  with assms(1) have ltn: "idx < n" by simp
  from ltk Suc.prems have ok: "\<not> sourceOutOfRange ev sOff idx" by simp
  from lt Suc.prems have w: "slotWritable t (dOff + idx)" by simp
  have succ: "unat (idx + 1) = unat idx + 1" using lt by (rule word_succ_unat)
  have le1: "idx + 1 \<le> m" using lt by (simp add: inc_le)
  have range: "(idx + 1 \<le> i) = (idx < i)" for i using lt by (rule word_succ_le)
  define t1 where "t1 = t\<lparr>biasedValue := (biasedValue t)
                     (dOff + idx := segmentEntryWord env mi ev (sOff + idx))\<rparr>"
  have step: "initElemSegmentFrom env mi seg ev t dOff sOff n idx =
              initElemSegmentFrom env mi seg ev t1 dOff sOff n (idx + 1)"
    using ltn ok w
    by (subst initElemSegmentFrom.simps)
       (simp add: Let_def sourceOutOfRange_def setTableElement_writable t1_def
          segmentEntryWord_def)
  have d: "d = unat m - unat (idx + 1)" using Suc.hyps(2) succ by simp
  have pre: "\<forall>i. idx + 1 \<le> i \<and> i < k \<longrightarrow> \<not> sourceOutOfRange ev sOff i"
    using Suc.prems(1) by (auto simp: range)
  have w1: "\<forall>i. idx + 1 \<le> i \<and> i < m \<longrightarrow> slotWritable t1 (dOff + i)"
    using Suc.prems(4) by (auto simp: range slotWritable_def t1_def)
  have nw1: "m < k \<longrightarrow> \<not> slotWritable t1 (dOff + m)"
    using Suc.prems(5) lt by (auto simp: slotWritable_def t1_def)
  have funs: "(\<lambda>j. if idx + 1 \<le> j - dOff \<and> j - dOff < m
                    then segmentEntryWord env mi ev (sOff + (j - dOff))
                    else biasedValue t1 j)
            = (\<lambda>j. if idx \<le> j - dOff \<and> j - dOff < m
                    then segmentEntryWord env mi ev (sOff + (j - dOff))
                    else biasedValue t j)"
  proof
    fix j
    show "(if idx + 1 \<le> j - dOff \<and> j - dOff < m
           then segmentEntryWord env mi ev (sOff + (j - dOff)) else biasedValue t1 j)
        = (if idx \<le> j - dOff \<and> j - dOff < m
           then segmentEntryWord env mi ev (sOff + (j - dOff)) else biasedValue t j)"
    proof (cases "j = dOff + idx")
      case True
      then have "j - dOff = idx" by simp
      with lt show ?thesis by (simp add: range t1_def True)
    next
      case False
      then have "j - dOff \<noteq> idx" by auto
      then have "(idx < j - dOff) = (idx \<le> j - dOff)" by auto
      with False show ?thesis by (simp add: range t1_def)
    qed
  qed
  have "initElemSegmentFrom env mi seg ev t1 dOff sOff n (idx + 1) =
          (Some (if m = k then outOfBoundsElemSegmentAccess seg (sOff + k)
                 else outOfBoundsTableAccess (dOff + m)),
           t1\<lparr>biasedValue :=
                 (\<lambda>j. if idx + 1 \<le> j - dOff \<and> j - dOff < m
                      then segmentEntryWord env mi ev (sOff + (j - dOff))
                      else biasedValue t1 j)\<rparr>)"
    by (rule Suc.hyps(1)[OF d pre le1 Suc.prems(3) w1 nw1])
  then show ?case
    unfolding step funs by (simp add: t1_def)
qed


lemma first_violation_exists:
  assumes "i < n" and "sourceOutOfRange ev sOff i"
  shows "\<exists>k m. k \<le> i \<and> sourceOutOfRange ev sOff k
           \<and> (\<forall>j<k. \<not> sourceOutOfRange ev sOff j)
           \<and> m \<le> k \<and> (\<forall>j<m. slotWritable t (dOff + j))
           \<and> (m < k \<longrightarrow> \<not> slotWritable t (dOff + m))"
proof -
  from assms(2) obtain k where k: "sourceOutOfRange ev sOff k"
    and kmin: "\<forall>j<k. \<not> sourceOutOfRange ev sOff j"
    using exists_least_iff[of "sourceOutOfRange ev sOff"] by blast
  from kmin assms(2) have ki: "k \<le> i" by (meson not_le)
  let ?P = "\<lambda>m. m \<le> k \<and> (m = k \<or> \<not> slotWritable t (dOff + m))"
  have "?P k" by simp
  then obtain m where m: "?P m" and mmin: "\<forall>j<m. \<not> ?P j"
    using exists_least_iff[of ?P] by blast
  have "slotWritable t (dOff + j)" if "j < m" for j
  proof -
    from that m have "j \<le> k" "j \<noteq> k" by auto
    with mmin that show ?thesis by blast
  qed
  with k kmin ki m show ?thesis by blast
qed

lemma first_violation_unique:
  assumes "sourceOutOfRange ev sOff k" "\<forall>j<k. \<not> sourceOutOfRange ev sOff j"
    "m \<le> k" "\<forall>j<m. slotWritable t (dOff + j)" "m < k \<longrightarrow> \<not> slotWritable t (dOff + m)"
    and "sourceOutOfRange ev sOff k'" "\<forall>j<k'. \<not> sourceOutOfRange ev sOff j"
    "m' \<le> k'" "\<forall>j<m'. slotWritable t (dOff + j)" "m' < k' \<longrightarrow> \<not> slotWritable t (dOff + m')"
  shows "k = k' \<and> m = m'"
proof -
  have k: "k = k'"
    using assms(1,2,6,7) by (meson linorder_neqE)
  have "\<not> m < m'"
    using assms(3,5,8,9) k by (metis leD le_less_trans not_le order.strict_implies_order antisym_conv2)
  moreover have "\<not> m' < m"
    using assms(3,4,8,10) k by (metis leD le_less_trans not_le order.strict_implies_order antisym_conv2)
  ultimately show ?thesis using k by auto
qed

lemma word_less_2: "((j::Uptr) < 2) = (j = 0 \<or> j = 1)"
proof -
  have "(j < 2) = (unat j < 2)" by (simp add: word_less_nat_alt)
  also have "\<dots> = (unat j = 0 \<or> unat j = 1)" by arith
  also have "\<dots> = (j = 0 \<or> j = 1)" by (simp add: word_unat_eq_iff)
  finally show ?thesis .
qed

text \<open>
  C4 (counterexample). The init of a segment of length 2 with \<open>dest = 0\<close>, \<open>src = 1\<close>, \<open>n = 2\<close> on the table
  \<open>[A, B]\<close> raises the out-of-bounds segment access exception at source index 2, after the
  first step has replaced slot 0.
\<close>

theorem initElemSegment_partial_write_counterexample:
  "sourceOutOfRange [ref_func 0, ref_func 1] 1 1
   \<and> fst (initElemSegment exampleEnv exampleModule 0 [ref_func 0, ref_func 1] exampleTable 0 1 2)
       = Some (outOfBoundsElemSegmentAccess 0 2)
   \<and> biasedValue exampleTable 0 = 0x2000
   \<and> biasedValue
        (snd (initElemSegment exampleEnv exampleModule 0 [ref_func 0, ref_func 1] exampleTable 0 1 2))
        0 = 0x2200"
  by (simp add: exampleInit_result sourceOutOfRange_def) (simp add: example_defs)

text \<open>
  C4 (amended). When some step \<open>i < n\<close> has its source index out of range, let \<open>k\<close> be the
  first such step and let \<open>m\<close> be the first step before \<open>k\<close> whose destination slot cannot be
  written, or \<open>k\<close> when the \<open>k\<close> destination slots before it can all be written. The init
  stores the entries of the steps \<open>0 .. m - 1\<close> into the slots \<open>dest_off .. dest_off + m - 1\<close>,
  leaves every other slot and the rest of the table as they were, and raises the
  out-of-bounds segment access at source index \<open>src_off + k\<close> when \<open>m = k\<close>, the out-of-bounds
  table access at index \<open>dest_off + m\<close> otherwise. In particular the table is unchanged
  when \<open>m = 0\<close>.
\<close>

theorem initElemSegment_source_out_of_range:
  assumes "i < n" and "sourceOutOfRange ev sOff i"
  shows "\<exists>k m. k \<le> i \<and> sourceOutOfRange ev sOff k
           \<and> (\<forall>j<k. \<not> sourceOutOfRange ev sOff j)
           \<and> m \<le> k \<and> (\<forall>j<m. slotWritable t (dOff + j))
           \<and> (m < k \<longrightarrow> \<not> slotWritable t (dOff + m))
           \<and> initElemSegment env mi seg ev t dOff sOff n =
               (Some (if m = k then outOfBoundsElemSegmentAccess seg (sOff + k)
                      else outOfBoundsTableAccess (dOff + m)),
                t\<lparr>biasedValue :=
                     (\<lambda>j. if j - dOff < m
                          then segmentEntryWord env mi ev (sOff + (j - dOff))
                          else biasedValue t j)\<rparr>)"
proof -
  from first_violation_exists[OF assms, of t dOff]
  obtain k m where ki: "k \<le> i" and k: "sourceOutOfRange ev sOff k"
    and kmin: "\<forall>j<k. \<not> sourceOutOfRange ev sOff j"
    and mk: "m \<le> k" and w: "\<forall>j<m. slotWritable t (dOff + j)"
    and nw: "m < k \<longrightarrow> \<not> slotWritable t (dOff + m)"
    by blast
  from ki assms(1) have kn: "k < n" by simp
  have "initElemSegmentFrom env mi seg ev t dOff sOff n 0 =
          (Some (if m = k then outOfBoundsElemSegmentAccess seg (sOff + k)
                 else outOfBoundsTableAccess (dOff + m)),
           t\<lparr>biasedValue :=
                (\<lambda>j. if 0 \<le> j - dOff \<and> j - dOff < m
                     then segmentEntryWord env mi ev (sOff + (j - dOff))
                     else biasedValue t j)\<rparr>)"
    using kmin mk w nw by (intro initElemSegmentFrom_exact[OF kn k]) simp_all
  then have "initElemSegment env mi seg ev t dOff sOff n =
          (Some (if m = k then outOfBoundsElemSegmentAccess seg (sOff + k)
                 else outOfBoundsTableAccess (dOff + m)),
           t\<lparr>biasedValue :=
                (\<lambda>j. if j - dOff < m
                     then segmentEntryWord env mi ev (sOff + (j - dOff))
                     else biasedValue t j)\<rparr>)"
    by (simp add: initElemSegment_def)
  with ki k kmin mk w nw show ?thesis by blast
qed

theorem initElemSegment_source_out_of_range_witness:
  "fst (initElemSegment exampleEnv exampleModule 0 [ref_func 0, ref_func 1] exampleTable 0 1 2)
     = Some (outOfBoundsElemSegmentAccess 0 2)
   \<and> biasedValue
        (snd (initElemSegment exampleEnv exampleModule 0 [ref_func 0, ref_func 1] exampleTable 0 1 2))
        0 = 0x2200
   \<and> biasedValue
        (snd (initElemSegment exampleEnv exampleModule 0 [ref_func 0, ref_func 1] exampleTable 0 1 2))
        1 = 0x2100
   \<and> fst (initElemSegment exampleEnv exampleModule 0 [ref_func 0, ref_func 1] exampleTable 1 0 3)
       = Some (outOfBoundsTableAccess 2)
   \<and> biasedValue
        (snd (initElemSegment exampleEnv exampleModule 0 [ref_func 0, ref_func 1] exampleTable 1 0 3))
        1 = 0x2200
   \<and> biasedValue
        (snd (initElemSegment exampleEnv exampleModule 0 [ref_func 0, ref_func 1] exampleTable 1 0 3))
        0 = 0x2000"
proof -
  let ?ev = "[ref_func 0, ref_func 1]"
  have w0: "slotWritable exampleTable 0" and w1: "slotWritable exampleTable 1"
    and w2: "\<not> slotWritable exampleTable 2"
    by (simp_all add: slotWritable_def example_defs)
  have word: "segmentEntryWord exampleEnv exampleModule ?ev s = 0x2200" if "unat s < 2" for s
    using that
    by (cases "unat s")
       (simp_all add: segmentEntryWord_def exampleModule_def example_defs
          objectToBiasedTableElementValue_def getOutOfBoundsElement_def)
  have h1: "(1::Uptr) < 2" by simp
  have h2: "sourceOutOfRange ?ev 1 1" by (simp add: sourceOutOfRange_def)
  from initElemSegment_source_out_of_range [OF h1 h2, where env = exampleEnv and mi = exampleModule
      and seg = 0 and t = exampleTable and dOff = 0]
  obtain k m where k: "sourceOutOfRange ?ev 1 k" "\<forall>j<k. \<not> sourceOutOfRange ?ev 1 j"
    "m \<le> k" "\<forall>j<m. slotWritable exampleTable (0 + j)"
    "m < k \<longrightarrow> \<not> slotWritable exampleTable (0 + m)"
    and r: "initElemSegment exampleEnv exampleModule 0 ?ev exampleTable 0 1 2 =
              (Some (if m = k then outOfBoundsElemSegmentAccess 0 (1 + k)
                     else outOfBoundsTableAccess (0 + m)),
               exampleTable\<lparr>biasedValue :=
                 (\<lambda>j. if j - 0 < m then segmentEntryWord exampleEnv exampleModule ?ev (1 + (j - 0))
                      else biasedValue exampleTable j)\<rparr>)"
    by blast
  have "k = 1 \<and> m = 1"
    by (rule first_violation_unique[OF k])
       (simp_all add: sourceOutOfRange_def w0)
  with r have a: "initElemSegment exampleEnv exampleModule 0 ?ev exampleTable 0 1 2 =
              (Some (outOfBoundsElemSegmentAccess 0 2),
               exampleTable\<lparr>biasedValue :=
                 (\<lambda>j. if j < 1 then segmentEntryWord exampleEnv exampleModule ?ev (1 + j)
                      else biasedValue exampleTable j)\<rparr>)"
    by (simp cong: if_cong)
  have g1: "(2::Uptr) < 3" by simp
  have g2: "sourceOutOfRange ?ev 0 2" by (simp add: sourceOutOfRange_def)
  from initElemSegment_source_out_of_range [OF g1 g2, where env = exampleEnv and mi = exampleModule
      and seg = 0 and t = exampleTable and dOff = 1]
  obtain k' m' where k': "sourceOutOfRange ?ev 0 k'" "\<forall>j<k'. \<not> sourceOutOfRange ?ev 0 j"
    "m' \<le> k'" "\<forall>j<m'. slotWritable exampleTable (1 + j)"
    "m' < k' \<longrightarrow> \<not> slotWritable exampleTable (1 + m')"
    and r': "initElemSegment exampleEnv exampleModule 0 ?ev exampleTable 1 0 3 =
              (Some (if m' = k' then outOfBoundsElemSegmentAccess 0 (0 + k')
                     else outOfBoundsTableAccess (1 + m')),
               exampleTable\<lparr>biasedValue :=
                 (\<lambda>j. if j - 1 < m' then segmentEntryWord exampleEnv exampleModule ?ev (0 + (j - 1))
                      else biasedValue exampleTable j)\<rparr>)"
    by blast
  have "k' = 2 \<and> m' = 1"
    by (rule first_violation_unique[OF k'])
       (auto simp: sourceOutOfRange_def w1 w2 word_less_2)
  with r' have b: "initElemSegment exampleEnv exampleModule 0 ?ev exampleTable 1 0 3 =
              (Some (outOfBoundsTableAccess 2),
               exampleTable\<lparr>biasedValue :=
                 (\<lambda>j. if j - 1 < 1 then segmentEntryWord exampleEnv exampleModule ?ev (j - 1)
                      else biasedValue exampleTable j)\<rparr>)"
    by (simp cong: if_cong)
  show ?thesis
    unfolding a b by (simp add: word) (simp add: example_defs)
qed

subsection \<open>Copying\<close>

lemma unat_ucast_32_64: "unat (ucast (n :: U32) :: Uptr) = unat n"
proof -
  have "unat n < 2 ^ 32" using unsigned_less[of n] by simp
  then have "unat n < 2 ^ 64" by simp
  then show ?thesis by (simp add: unsigned_ucast_eq take_bit_nat_eq_self)
qed

lemma copyAscending_steps:
  "copyAscending env heap st dt dOff sOff n index =
     spec_copySteps env heap st dt (ucast dOff) (ucast sOff) (map of_nat [unat index..<unat n])"
proof (induction env heap st dt dOff sOff n index rule: copyAscending.induct)
  case (1 env heap st dt dOff sOff n index)
  show ?case
  proof (cases "index < ucast n")
    case False
    then have "unat n \<le> unat index"
      by (simp add: word_less_nat_alt unat_ucast_32_64)
    with False show ?thesis
      by (subst copyAscending.simps) simp
  next
    case True
    then have lt: "unat index < unat n"
      by (simp add: word_less_nat_alt unat_ucast_32_64)
    have succ: "unat (index + 1) = Suc (unat index)"
      using word_succ_unat[OF True] by simp
    have list: "map of_nat [unat index..<unat n] =
                index # map of_nat [unat (index + 1)..<unat n]"
      using lt by (simp add: upt_conv_Cons succ)
    show ?thesis
    proof (cases "getTableElementNonNull env (heap st) (ucast sOff + index)")
      case (Inl e)
      with True show ?thesis
        by (subst copyAscending.simps) (simp add: list)
    next
      case (Inr obj)
      note get = Inr
      show ?thesis
      proof (cases "setTableElementNonNull env (heap dt) (ucast dOff + index) obj")
        case (Inl e)
        with True get show ?thesis
          by (subst copyAscending.simps) (simp add: list)
      next
        case (Inr r)
        obtain old t' where r: "r = (old, t')" by (cases r)
        have "copyAscending env heap st dt dOff sOff n index =
              copyAscending env (heap(dt := t')) st dt dOff sOff n (index + 1)"
          using True get Inr r by (subst copyAscending.simps) simp
        also have "\<dots> = spec_copySteps env (heap(dt := t')) st dt (ucast dOff) (ucast sOff)
                            (map of_nat [unat (index + 1)..<unat n])"
          by (rule "1.IH"[OF True get Inr r[symmetric]])
        also have "\<dots> = spec_copySteps env heap st dt (ucast dOff) (ucast sOff)
                            (map of_nat [unat index..<unat n])"
          using get Inr r by (simp add: list)
        finally show ?thesis .
      qed
    qed
  qed
qed

lemma copyDescending_steps:
  "copyDescending env heap st dt dOff sOff n index =
     spec_copySteps env heap st dt (ucast dOff) (ucast sOff)
       (map (\<lambda>i. ucast n - of_nat i - 1) [unat index..<unat n])"
proof (induction env heap st dt dOff sOff n index rule: copyDescending.induct)
  case (1 env heap st dt dOff sOff n index)
  show ?case
  proof (cases "index < ucast n")
    case False
    then have "unat n \<le> unat index"
      by (simp add: word_less_nat_alt unat_ucast_32_64)
    with False show ?thesis
      by (subst copyDescending.simps) simp
  next
    case True
    then have lt: "unat index < unat n"
      by (simp add: word_less_nat_alt unat_ucast_32_64)
    have succ: "unat (index + 1) = Suc (unat index)"
      using word_succ_unat[OF True] by simp
    have list: "map (\<lambda>i. ucast n - of_nat i - 1) [unat index..<unat n] =
                (ucast n - index - 1) # map (\<lambda>i. ucast n - of_nat i - 1) [unat (index + 1)..<unat n]"
      using lt by (simp add: upt_conv_Cons succ)
    show ?thesis
    proof (cases "getTableElementNonNull env (heap st) (ucast sOff + (ucast n - index - 1))")
      case (Inl e)
      with True show ?thesis
        by (subst copyDescending.simps) (simp add: list)
    next
      case (Inr obj)
      note get = Inr
      show ?thesis
      proof (cases "setTableElementNonNull env (heap dt) (ucast dOff + (ucast n - index - 1)) obj")
        case (Inl e)
        with True get show ?thesis
          by (subst copyDescending.simps) (simp add: list)
      next
        case (Inr r)
        obtain old t' where r: "r = (old, t')" by (cases r)
        have "copyDescending env heap st dt dOff sOff n index =
              copyDescending env (heap(dt := t')) st dt dOff sOff n (index + 1)"
          using True get Inr r by (subst copyDescending.simps) simp
        also have "\<dots> = spec_copySteps env (heap(dt := t')) st dt (ucast dOff) (ucast sOff)
                            (map (\<lambda>i. ucast n - of_nat i - 1) [unat (index + 1)..<unat n])"
          by (rule "1.IH"[OF True get Inr r[symmetric]])
        also have "\<dots> = spec_copySteps env heap st dt (ucast dOff) (ucast sOff)
                            (map (\<lambda>i. ucast n - of_nat i - 1) [unat index..<unat n])"
          using get Inr r by (simp add: list)
        finally show ?thesis .
      qed
    qed
  qed
qed

lemma descending_offsets:
  "map (\<lambda>i. (ucast (n :: U32) :: Uptr) - of_nat i - 1) [0..<unat n] = rev (map of_nat [0..<unat n])"
proof (rule nth_equalityI)
  show "length (map (\<lambda>i. (ucast n :: Uptr) - of_nat i - 1) [0..<unat n]) =
        length (rev (map of_nat [0..<unat n]) :: Uptr list)"
    by simp
next
  fix i
  assume "i < length (map (\<lambda>i. (ucast n :: Uptr) - of_nat i - 1) [0..<unat n])"
  then have i: "i < unat n" by simp
  then have "rev (map of_nat [0..<unat n]) ! i = (of_nat (unat n - Suc i) :: Uptr)"
    by (simp add: rev_nth)
  also have "\<dots> = of_nat (unat n) - of_nat (Suc i)"
    using i by (simp add: of_nat_diff)
  also have "\<dots> = ucast n - of_nat i - 1"
    by simp
  finally show "map (\<lambda>i. (ucast n :: Uptr) - of_nat i - 1) [0..<unat n] ! i =
                rev (map of_nat [0..<unat n]) ! i"
    using i by simp
qed

lemma getTableElement_Inr_live:
  assumes "getTableElement env t i = Inr x"
  shows "i < numReservedElements t \<and> biasedValue t i \<noteq> 0"
proof (cases "i < numReservedElements t")
  case True
  with assms show ?thesis
    by (auto simp: getTableElement_in_reservation split: if_splits)
next
  case False
  with assms show ?thesis
    by (simp add: getTableElement_def getTableElementNonNull_beyond_reservation not_less)
qed

lemma copy_overlap_words:
  assumes r: "0 < numReservedElements t" "1 < numReservedElements t"
             "2 < numReservedElements t" "3 < numReservedElements t"
    and live: "biasedValue t 0 \<noteq> 0" "biasedValue t 1 \<noteq> 0" "biasedValue t 2 \<noteq> 0"
              "biasedValue t 3 \<noteq> 0"
    and t: "heap p = t"
  shows "copyDescending env heap p p 1 0 3 0 =
           (None, heap(p := t\<lparr>biasedValue := (biasedValue t)
                    (3 := biasedValue t 2, 2 := biasedValue t 1, 1 := biasedValue t 0)\<rparr>))"
  using assms
  by (simp add: copyDescending.simps getTableElementNonNull_in_reservation
      setTableElementNonNull_in_reservation)


lemma table_copy_steps:
  "table_copy env heap crd dOff sOff n sid did =
     spec_copySteps env heap (getTableFromRuntimeData crd sid) (getTableFromRuntimeData crd did)
       (ucast dOff) (ucast sOff)
       (if sOff < dOff then rev (map of_nat [0..<unat n]) else map of_nat [0..<unat n])"
  by (simp add: table_copy_def Let_def copyAscending_steps copyDescending_steps
      descending_offsets)

lemma table_copy_overlap:
  assumes same: "getTableFromRuntimeData crd sid = getTableFromRuntimeData crd did"
    and a: "getTableElement env (heap (getTableFromRuntimeData crd did)) 0 = Inr A"
    and b: "getTableElement env (heap (getTableFromRuntimeData crd did)) 1 = Inr B"
    and c: "getTableElement env (heap (getTableFromRuntimeData crd did)) 2 = Inr C"
    and d: "getTableElement env (heap (getTableFromRuntimeData crd did)) 3 = Inr D"
  shows "\<exists>heap'. table_copy env heap crd 1 0 3 sid did = (None, heap')
           \<and> getTableElement env (heap' (getTableFromRuntimeData crd did)) 0 = Inr A
           \<and> getTableElement env (heap' (getTableFromRuntimeData crd did)) 1 = Inr A
           \<and> getTableElement env (heap' (getTableFromRuntimeData crd did)) 2 = Inr B
           \<and> getTableElement env (heap' (getTableFromRuntimeData crd did)) 3 = Inr C
           \<and> numElements (heap' (getTableFromRuntimeData crd did))
               = numElements (heap (getTableFromRuntimeData crd did))
           \<and> (\<forall>p. p \<noteq> getTableFromRuntimeData crd did \<longrightarrow> heap' p = heap p)"
proof -
  let ?p = "getTableFromRuntimeData crd did"
  let ?t = "heap ?p"
  let ?t' = "?t\<lparr>biasedValue := (biasedValue ?t)
               (3 := biasedValue ?t 2, 2 := biasedValue ?t 1, 1 := biasedValue ?t 0)\<rparr>"
  note la = getTableElement_Inr_live[OF a] and lb = getTableElement_Inr_live[OF b]
    and lc = getTableElement_Inr_live[OF c] and ld = getTableElement_Inr_live[OF d]
  have "copyDescending env heap ?p ?p 1 0 3 0 = (None, heap(?p := ?t'))"
    using la lb lc ld by (intro copy_overlap_words) simp_all
  then have copy: "table_copy env heap crd 1 0 3 sid did = (None, heap(?p := ?t'))"
    by (simp add: table_copy_def same)
  have res: "numReservedElements ?t' = numReservedElements ?t" by simp
  have "getTableElement env ?t' 0 = getTableElement env ?t 0"
    by (rule getTableElement_cong[OF res]) simp
  moreover have "getTableElement env ?t' 1 = getTableElement env ?t 0"
    using la lb by (simp add: getTableElement_in_reservation)
  moreover have "getTableElement env ?t' 2 = getTableElement env ?t 1"
    using lb lc by (simp add: getTableElement_in_reservation)
  moreover have "getTableElement env ?t' 3 = getTableElement env ?t 2"
    using lc ld by (simp add: getTableElement_in_reservation)
  ultimately show ?thesis
    using a b c copy by simp
qed

text \<open>
  C5. \<open>table.copy\<close> performs the element steps for the offsets \<open>0 .. n - 1\<close> in descending
  order when the source offset is below the destination offset, and in ascending order
  otherwise. Consequently, on a single table whose slots 0 to 3 read as \<open>[A, B, C, D]\<close>, the
  copy with destination offset 1, source offset 0 and 3 elements completes and leaves the
  slots reading \<open>[A, A, B, C]\<close>; the element count and all other tables are unchanged.
\<close>

theorem table_copy_direction:
  "table_copy env heap crd dOff sOff n sid did =
     spec_copySteps env heap (getTableFromRuntimeData crd sid) (getTableFromRuntimeData crd did)
       (ucast dOff) (ucast sOff)
       (if sOff < dOff then rev (map of_nat [0..<unat n]) else map of_nat [0..<unat n])
   \<and> (getTableFromRuntimeData crd sid = getTableFromRuntimeData crd did
       \<and> getTableElement env (heap (getTableFromRuntimeData crd did)) 0 = Inr A
       \<and> getTableElement env (heap (getTableFromRuntimeData crd did)) 1 = Inr B
       \<and> getTableElement env (heap (getTableFromRuntimeData crd did)) 2 = Inr C
       \<and> getTableElement env (heap (getTableFromRuntimeData crd did)) 3 = Inr D
       \<longrightarrow> (\<exists>heap'. table_copy env heap crd 1 0 3 sid did = (None, heap')
              \<and> getTableElement env (heap' (getTableFromRuntimeData crd did)) 0 = Inr A
              \<and> getTableElement env (heap' (getTableFromRuntimeData crd did)) 1 = Inr A
              \<and> getTableElement env (heap' (getTableFromRuntimeData crd did)) 2 = Inr B
              \<and> getTableElement env (heap' (getTableFromRuntimeData crd did)) 3 = Inr C
              \<and> numElements (heap' (getTableFromRuntimeData crd did))
                  = numElements (heap (getTableFromRuntimeData crd did))
              \<and> (\<forall>p. p \<noteq> getTableFromRuntimeData crd did \<longrightarrow> heap' p = heap p)))"
  using table_copy_steps[of env heap crd dOff sOff n sid did]
    table_copy_overlap[of crd sid did env heap A B C D]
  by blast

lemma exampleTable4_reads:
  "getTableElement exampleEnv exampleTable4 0 = Inr objA"
  "getTableElement exampleEnv exampleTable4 1 = Inr objB"
  "getTableElement exampleEnv exampleTable4 2 = Inr objC"
  "getTableElement exampleEnv exampleTable4 3 = Inr objD"
  by (simp_all add: getTableElement_in_reservation example_defs)

theorem table_copy_direction_witness:
  "fst (table_copy exampleEnv (\<lambda>_. exampleTable4) (\<lambda>_. 0x5000) 1 0 3 0 0) = None
   \<and> getTableElement exampleEnv
        (snd (table_copy exampleEnv (\<lambda>_. exampleTable4) (\<lambda>_. 0x5000) 1 0 3 0 0) 0x5000) 0 = Inr objA
   \<and> getTableElement exampleEnv
        (snd (table_copy exampleEnv (\<lambda>_. exampleTable4) (\<lambda>_. 0x5000) 1 0 3 0 0) 0x5000) 1 = Inr objA
   \<and> getTableElement exampleEnv
        (snd (table_copy exampleEnv (\<lambda>_. exampleTable4) (\<lambda>_. 0x5000) 1 0 3 0 0) 0x5000) 2 = Inr objB
   \<and> getTableElement exampleEnv
        (snd (table_copy exampleEnv (\<lambda>_. exampleTable4) (\<lambda>_. 0x5000) 1 0 3 0 0) 0x5000) 3 = Inr objC"
proof -
  let ?heap = "\<lambda>_ :: TablePtr. exampleTable4"
  let ?crd = "\<lambda>_ :: Uptr. 0x5000 :: TablePtr"
  have p: "getTableFromRuntimeData ?crd 0 = 0x5000"
    by (simp add: getTableFromRuntimeData_def)
  note th = table_copy_direction [of exampleEnv ?heap ?crd 1 0 3 0 0 objA objB objC objD,
      THEN conjunct2, rule_format]
  have "\<exists>heap'. table_copy exampleEnv ?heap ?crd 1 0 3 0 0 = (None, heap')
           \<and> getTableElement exampleEnv (heap' (getTableFromRuntimeData ?crd 0)) 0 = Inr objA
           \<and> getTableElement exampleEnv (heap' (getTableFromRuntimeData ?crd 0)) 1 = Inr objA
           \<and> getTableElement exampleEnv (heap' (getTableFromRuntimeData ?crd 0)) 2 = Inr objB
           \<and> getTableElement exampleEnv (heap' (getTableFromRuntimeData ?crd 0)) 3 = Inr objC
           \<and> numElements (heap' (getTableFromRuntimeData ?crd 0))
               = numElements (?heap (getTableFromRuntimeData ?crd 0))
           \<and> (\<forall>p. p \<noteq> getTableFromRuntimeData ?crd 0 \<longrightarrow> heap' p = ?heap p)"
    by (rule th) (simp add: exampleTable4_reads)
  then show ?thesis
    by (auto simp: p)
qed

subsection \<open>The reservation and address resolution\<close>

lemma tableMaxElements_64: "tableMaxElements TYPE(64) = 0x100000000"
  by (simp add: tableMaxElements_def)

text \<open>
  C8 (the code on a 32-bit host). With a 32-bit \<open>Uptr\<close> the element count of the
  reservation, \<open>Uptr(1) << 32\<close>, is not the 4 Mi elements that the comment in
  \<open>createTableImpl\<close> announces: the source has no branch for the 32-bit host. On the 64-bit
  host the count is \<open>2^32\<close> whatever the type's maximum, with one guard page after it
  (\<open>tableMaxElements_64\<close>, \<open>createTableImpl_reservation\<close>), and growing and writing leave
  the reserved count as it is (\<open>numReservedElements_constant\<close>).
\<close>

theorem tableMaxElements_32bit_host:
  "tableMaxElements TYPE(32) = 0 \<and> tableMaxElements TYPE(32) \<noteq> 0x400000"
  by (simp add: tableMaxElements_def)

lemma createTableImpl_reservation:
  assumes "createTableImpl env heap tables new smin smax quota = (Some p, heap', tables')"
  shows "numReservedElements (heap' p) = 0x100000000
         \<and> numReservedBytes (heap' p) = 0x800000000
         \<and> elements (heap' p)
             = allocateVirtualPages env (drop_bit (pageSizeLog2 env) 0x800000000 + numGuardPages)
         \<and> numGuardPages = 1"
  using assms
  by (auto simp: createTableImpl_def Let_def tableMaxElements_64 sizeofTableElement_def
      numGuardPages_def split: if_splits)

lemma createTable_without_id_refunds:
  assumes c: "createTableImpl env heap tables new smin smax quota = (Some p, heap', tables')"
  shows "fst (createTable env heap tables new smin smax element quota (- 1)) = None
         \<and> resourceQuota (fst (snd (createTable env heap tables new smin smax element quota (- 1))) p)
             = quota"
proof -
  let ?el = "if element = 0 then getUninitializedElement env else element"
  let ?g = "growTableImpl env (heap' p) smin True ?el"
  from c have fresh: "numElements (heap' p) = 0" "resourceQuota (heap' p) = quota"
    by (auto simp: createTableImpl_def Let_def split: if_splits)
  have unfold: "createTable env heap tables new smin smax element quota (- 1) =
                  (None, deleteTable (heap'(p := snd ?g)) tables' p)"
    using c by (cases ?g) (auto simp: createTable_def Let_def split: option.splits prod.splits)
  have "map_option (\<lambda>q. tableElems_free q (numElements (snd ?g))) (resourceQuota (snd ?g)) = quota"
  proof (cases "spec_growRejected env (heap' p) smin \<or> smin = 0")
    case True
    then have "snd ?g = heap' p"
      by (auto simp: growTableImpl_rejected growTableImpl_zero)
    with fresh show ?thesis
      by (cases quota) (simp_all add: tableElems_free_def)
  next
    case False
    then have "numElements (snd ?g) = smin" "resourceQuota (snd ?g) = chargedQuota (heap' p) smin"
      using fresh by (simp_all add: growTableImpl_accepted)
    with fresh show ?thesis
      by (cases quota) (simp_all add: chargedQuota_def tableElems_free_def)
  qed
  then show ?thesis
    by (simp add: unfold deleteTable_def)
qed

lemma numReservedElements_constant:
  "numReservedElements (snd (growTableImpl env t d init fill)) = numReservedElements t"
  "setTableElementNonNull env t i obj = Inr (old, t') \<Longrightarrow>
     numReservedElements t' = numReservedElements t"
proof -
  show "numReservedElements (snd (growTableImpl env t d init fill)) = numReservedElements t"
    by (cases "spec_growRejected env t d")
       (simp_all add: growTableImpl_rejected growTableImpl_accepted)
  show "numReservedElements t' = numReservedElements t"
    if "setTableElementNonNull env t i obj = Inr (old, t')"
    using setTableElementNonNull_success[OF that] by simp
qed

lemma isAddressOwnedByTable_None_iff:
  "isAddressOwnedByTable heap tables a = None \<longleftrightarrow> (\<forall>q \<in> set tables. \<not> ownsAddress (heap q) a)"
  by (induction tables) (auto simp: Let_def ownsAddress_def)

lemma isAddressOwnedByTable_owner:
  assumes "p \<in> set tables" and "ownsAddress (heap p) a"
    and "\<forall>q \<in> set tables. q \<noteq> p \<longrightarrow> \<not> ownsAddress (heap q) a"
  shows "isAddressOwnedByTable heap tables a =
           Some (p, (a - elements (heap p)) div sizeofTableElement)"
  using assms
  by (induction tables) (auto simp: Let_def ownsAddress_def)

lemma guardBytes_pos: "0 < guardBytes env"
  by (simp add: guardBytes_def numGuardPages_def)

lemma element_range_end:
  assumes "unat (elements t) + unat (numReservedBytes t) + guardBytes env \<le> 2 ^ 64"
  shows "unat (elements t + numReservedBytes t) = unat (elements t) + unat (numReservedBytes t)"
proof -
  from assms guardBytes_pos[of env]
  have "unat (elements t) + unat (numReservedBytes t) < 2 ^ 64" by simp
  then show ?thesis by (simp add: unat_add_lem[THEN iffD1])
qed

lemma ownsAddress_inAllocation:
  assumes "unat (elements t) + unat (numReservedBytes t) + guardBytes env \<le> 2 ^ 64"
    and "ownsAddress t a"
  shows "inAllocation env t a"
  using assms(2) element_range_end[OF assms(1)]
  by (simp add: ownsAddress_def inAllocation_def word_le_nat_alt word_less_nat_alt)

lemma onGuardPage_not_owned:
  assumes "unat (elements t) + unat (numReservedBytes t) + guardBytes env \<le> 2 ^ 64"
    and "onGuardPage env t a"
  shows "\<not> ownsAddress t a"
  using assms(2) element_range_end[OF assms(1)]
  by (simp add: ownsAddress_def onGuardPage_def word_le_nat_alt word_less_nat_alt)

lemma isAddressOwnedByTable_guard_page:
  assumes p: "p \<in> set tables" and dis: "allocationsDisjoint env heap tables"
    and g: "onGuardPage env (heap p) a"
  shows "isAddressOwnedByTable heap tables a = None"
proof -
  from dis have fits: "\<forall>q \<in> set tables.
      unat (elements (heap q)) + unat (numReservedBytes (heap q)) + guardBytes env \<le> 2 ^ 64"
    and apart: "\<forall>p \<in> set tables. \<forall>q \<in> set tables. p \<noteq> q \<longrightarrow>
      (\<forall>a. \<not> (inAllocation env (heap p) a \<and> inAllocation env (heap q) a))"
    unfolding allocationsDisjoint_def by blast+
  from g have gp: "inAllocation env (heap p) a"
    unfolding onGuardPage_def inAllocation_def by linarith
  have "\<not> ownsAddress (heap q) a" if q: "q \<in> set tables" for q
  proof (cases "q = p")
    case True
    from fits p have "unat (elements (heap p)) + unat (numReservedBytes (heap p))
                        + guardBytes env \<le> 2 ^ 64" by blast
    from onGuardPage_not_owned[OF this g] True show ?thesis by blast
  next
    case False
    show ?thesis
    proof
      assume owns: "ownsAddress (heap q) a"
      from fits q have "unat (elements (heap q)) + unat (numReservedBytes (heap q))
                          + guardBytes env \<le> 2 ^ 64" by blast
      from ownsAddress_inAllocation[OF this owns] have "inAllocation env (heap q) a" .
      with gp apart p q False show False by blast
    qed
  qed
  then show ?thesis
    unfolding isAddressOwnedByTable_None_iff by blast
qed

text \<open>
  C9 (amended). For a live table whose element range \<open>[elements, elements + numReservedBytes)\<close>
  contains the address, the element ranges of the live tables being disjoint, the
  resolution returns that table with the index \<open>(address - elements) / sizeof(Element)\<close>. For
  an address on the trailing guard page of a live table, the allocations of the live tables
  being disjoint, the resolution fails. In general it fails exactly when the address is in
  no live table's element range.
\<close>

theorem isAddressOwnedByTable_resolves:
  "(p \<in> set tables \<and> reservationsDisjoint heap tables \<and> ownsAddress (heap p) a
      \<longrightarrow> isAddressOwnedByTable heap tables a =
            Some (p, (a - elements (heap p)) div sizeofTableElement))
   \<and> (p \<in> set tables \<and> allocationsDisjoint env heap tables \<and> onGuardPage env (heap p) a
      \<longrightarrow> isAddressOwnedByTable heap tables a = None)
   \<and> (isAddressOwnedByTable heap tables a = None
        \<longleftrightarrow> (\<forall>q \<in> set tables. \<not> ownsAddress (heap q) a))"
proof -
  have "isAddressOwnedByTable heap tables a =
          Some (p, (a - elements (heap p)) div sizeofTableElement)"
    if "p \<in> set tables" and "reservationsDisjoint heap tables" and "ownsAddress (heap p) a"
  proof (rule isAddressOwnedByTable_owner)
    show "\<forall>q \<in> set tables. q \<noteq> p \<longrightarrow> \<not> ownsAddress (heap q) a"
      using that by (auto simp: reservationsDisjoint_def)
  qed (use that in simp_all)
  then show ?thesis
    using isAddressOwnedByTable_None_iff[of heap tables a]
      isAddressOwnedByTable_guard_page[of p tables env heap a]
    by blast
qed

text \<open>
  C9 (counterexample). The first byte of the guard page of a live table, the address
  \<open>elements + numReservedBytes\<close>, resolves to no table, while the last slot of the element
  range resolves to the table.
\<close>

theorem isAddressOwnedByTable_guard_page_counterexample:
  "elements (exampleHeap 0x5000) + numReservedBytes (exampleHeap 0x5000) = 0x7F0800000000
   \<and> isAddressOwnedByTable exampleHeap [0x5000, 0x6000] 0x7F0800000000 = None
   \<and> isAddressOwnedByTable exampleHeap [0x5000, 0x6000] 0x7F07FFFFFFF8 = Some (0x5000, 0xFFFFFFFF)"
  by (simp add: exampleHeap_def exampleTableLow_def exampleTable_def Let_def sizeofTableElement_def)

lemma exampleHeap_disjoint: "reservationsDisjoint exampleHeap [0x5000, 0x6000]"
  by (auto simp: reservationsDisjoint_def ownsAddress_def exampleHeap_def exampleTableLow_def
      exampleTable_def word_le_nat_alt word_less_nat_alt)

lemma exampleHeap_allocations: "allocationsDisjoint exampleEnv exampleHeap [0x5000, 0x6000]"
  by (auto simp: allocationsDisjoint_def inAllocation_def guardBytes_def numGuardPages_def
      exampleHeap_def exampleTableLow_def exampleTable_def exampleEnv_def)

theorem isAddressOwnedByTable_resolves_witness:
  "reservationsDisjoint exampleHeap [0x5000, 0x6000]
   \<and> ownsAddress (exampleHeap 0x5000) 0x7F0000000010
   \<and> isAddressOwnedByTable exampleHeap [0x5000, 0x6000] 0x7F0000000010 = Some (0x5000, 2)
   \<and> allocationsDisjoint exampleEnv exampleHeap [0x5000, 0x6000]
   \<and> onGuardPage exampleEnv (exampleHeap 0x5000) 0x7F0800000FFF
   \<and> isAddressOwnedByTable exampleHeap [0x5000, 0x6000] 0x7F0800000FFF = None
   \<and> onGuardPage exampleEnv (exampleHeap 0x6000) 0x7E0800000000
   \<and> isAddressOwnedByTable exampleHeap [0x5000, 0x6000] 0x7E0800000000 = None"
proof -
  have o1: "ownsAddress (exampleHeap 0x5000) 0x7F0000000010"
    by (simp add: ownsAddress_def exampleHeap_def exampleTable_def)
  have e1: "(0x7F0000000010 - elements (exampleHeap 0x5000)) div sizeofTableElement = 2"
    by (simp add: exampleHeap_def exampleTable_def sizeofTableElement_def)
  have g1: "onGuardPage exampleEnv (exampleHeap 0x5000) 0x7F0800000FFF"
    by (simp add: onGuardPage_def guardBytes_def numGuardPages_def exampleHeap_def
        exampleTable_def exampleEnv_def)
  have g2: "onGuardPage exampleEnv (exampleHeap 0x6000) 0x7E0800000000"
    by (simp add: onGuardPage_def guardBytes_def numGuardPages_def exampleHeap_def
        exampleTable_def exampleTableLow_def exampleEnv_def)
  have in1: "(0x5000 :: TablePtr) \<in> set [0x5000, 0x6000]"
    and in2: "(0x6000 :: TablePtr) \<in> set [0x5000, 0x6000]" by simp_all
  note th1 = isAddressOwnedByTable_resolves [of "0x5000" "[0x5000, 0x6000]" exampleHeap
      "0x7F0000000010", THEN conjunct1, rule_format]
  note th2 = isAddressOwnedByTable_resolves [of "0x5000" "[0x5000, 0x6000]" exampleHeap
      "0x7F0800000FFF" exampleEnv, THEN conjunct2, THEN conjunct1, rule_format]
  note th3 = isAddressOwnedByTable_resolves [of "0x6000" "[0x5000, 0x6000]" exampleHeap
      "0x7E0800000000" exampleEnv, THEN conjunct2, THEN conjunct1, rule_format]
  have r1: "isAddressOwnedByTable exampleHeap [0x5000, 0x6000] 0x7F0000000010 = Some (0x5000, 2)"
    using th1 in1 exampleHeap_disjoint o1 e1 by simp
  have r2: "isAddressOwnedByTable exampleHeap [0x5000, 0x6000] 0x7F0800000FFF = None"
    using th2 in1 exampleHeap_allocations g1 by blast
  have r3: "isAddressOwnedByTable exampleHeap [0x5000, 0x6000] 0x7E0800000000 = None"
    using th3 in2 exampleHeap_allocations g2 by blast
  from exampleHeap_disjoint o1 r1 exampleHeap_allocations g1 r2 g2 r3 show ?thesis
    by blast
qed

end
